theory Spec2Isabelle
  imports Main
begin

section \<open>Data model of the managed application (apNPSApplicationManaged.py)\<close>

text \<open>
  Python exceptions that the controller can raise. A raised exception leaves the
  mutations made so far in place, so a failing operation returns the exception together
  with the state it leaves behind. \<open>OtherError\<close> is any exception of another class, as a
  constructor of a form may raise.
\<close>

datatype py_error = KeyError | IndexError | AttributeError | TypeError | OtherError

text \<open>
  A widget of a form: its own \<open>editing\<close> flag and, for a title (labelled) widget, the
  \<open>editing\<close> flag of its nested \<open>entry_widget\<close>; \<open>None\<close> means that the widget has
  no \<open>entry_widget\<close> attribute.
\<close>

record widget =
  wg_editing :: bool
  entry_widget :: "bool option"

text \<open>
  A form object. \<open>FORM_NAME\<close>, \<open>widgets\<close> (\<open>_widgets__\<close>) and \<open>editw\<close> are \<open>None\<close> when
  the attribute does not exist; \<open>parentApp\<close> tells whether that attribute exists; the three
  \<open>has_\<close> flags are what \<open>hasattr\<close> answers for the optional methods.
\<close>

record form_obj =
  editing :: bool
  FORM_NAME :: "string option"
  parentApp :: bool
  widgets :: "widget list option"
  editw :: "int option"
  has_activate :: bool
  has_before_editing :: bool
  has_after_editing :: bool

type_synonym form_ref = nat
type_synonym pyargs = "string list"
type_synonym pykwargs = "(string \<times> string) list"

text \<open>
  A form class is its constructor, taken as a parameter (the Form classes are not part of
  the controller): from the arguments it either builds the initial state of a new object
  or raises an exception.
\<close>

type_synonym form_class = "pyargs \<Rightarrow> pykwargs \<Rightarrow> py_error + form_obj"

text \<open>
  A value of the dictionary \<open>_Forms\<close>: the list \<open>[form_class, args, keywords]\<close> stored by
  \<open>add_form_class\<close>, or the form object stored by \<open>register_form\<close>.
\<close>

datatype entry = FormClass form_class pyargs pykwargs | FormInstance form_ref

text \<open>What the application does that an observer can see, in order.\<close>

datatype event =
  EvOnStart | EvOnCleanExit | EvOnInMainLoop
  | EvResize form_ref | EvActivate form_ref
  | EvBeforeEditing form_ref | EvEdit form_ref | EvAfterEditing form_ref

text \<open>
  The attributes of \<open>NPSAppManaged\<close>, the store of form objects (\<open>objs\<close>, with
  \<open>next_ref\<close> the first address never handed out) and the log of events (\<open>trace\<close>).
  \<open>NEXT_ACTIVE_FORM\<close> is \<open>None\<close> for Python's \<open>None\<close>. \<open>THIS_FORM\<close> is \<open>None\<close> while
  \<open>_THIS_FORM\<close> is not a form object: it is Python's \<open>None\<close> or, after a \<open>TypeError\<close>
  of a constructor in the loop, the list \<open>[form_class, args, keywords]\<close>. Neither has the
  attributes of a form, and every use the controller makes of them raises
  \<open>AttributeError\<close> for the one as for the other.
\<close>

record app =
  FORM_VISIT_LIST :: "string list"
  NEXT_ACTIVE_FORM :: "string option"
  LAST_NEXT_ACTIVE_FORM :: "entry option"
  Forms :: "string \<rightharpoonup> entry"
  LAST_ACTIVE_FORM_NAME :: "string option"
  THIS_FORM :: "form_ref option"
  ACTIVE_FORM_NAME :: "string option"
  objs :: "form_ref \<Rightarrow> form_obj"
  next_ref :: form_ref
  trace :: "event list"

type_synonym result = "(py_error \<times> app) + app"

text \<open>Sequencing of two steps: an exception of the first skips the second.\<close>

definition and_then :: "result \<Rightarrow> (app \<Rightarrow> result) \<Rightarrow> result" where
  "and_then r f = (case r of Inl e \<Rightarrow> Inl e | Inr s \<Rightarrow> f s)"

definition log_event :: "event \<Rightarrow> app \<Rightarrow> app" where
  "log_event ev s = s\<lparr>trace := trace s @ [ev]\<rparr>"

text \<open>\<open>STARTING_FORM = "MAIN"\<close> and the attributes set by \<open>__init__\<close>.\<close>

definition STARTING_FORM :: string where
  "STARTING_FORM = ''MAIN''"

definition init_app :: "(form_ref \<Rightarrow> form_obj) \<Rightarrow> form_ref \<Rightarrow> app" where
  "init_app heap n =
     \<lparr>FORM_VISIT_LIST = [], NEXT_ACTIVE_FORM = Some STARTING_FORM,
      LAST_NEXT_ACTIVE_FORM = None, Forms = Map.empty, LAST_ACTIVE_FORM_NAME = None,
      THIS_FORM = None, ACTIVE_FORM_NAME = None, objs = heap, next_ref = n, trace = []\<rparr>"

section \<open>The registry\<close>

definition add_form_class :: "string \<Rightarrow> form_class \<Rightarrow> pyargs \<Rightarrow> pykwargs \<Rightarrow> app \<Rightarrow> app" where
  "add_form_class form_id form_class args keywords s =
     s\<lparr>Forms := (Forms s)(form_id \<mapsto> FormClass form_class args keywords)\<rparr>"

definition register_form :: "string \<Rightarrow> form_ref \<Rightarrow> app \<Rightarrow> app" where
  "register_form form_id form s =
     s\<lparr>objs := (objs s)(form := (objs s form)\<lparr>parentApp := True\<rparr>),
       Forms := (Forms s)(form_id \<mapsto> FormInstance form)\<rparr>"

text \<open>
  The call \<open>form_class(parent_app=self, *args, **keywords)\<close>. When \<open>keywords\<close> binds
  \<open>parent_app\<close> too, Python raises \<open>TypeError\<close> (two values for one keyword) before
  the constructor runs.
\<close>

definition call_form_class :: "form_class \<Rightarrow> pyargs \<Rightarrow> pykwargs \<Rightarrow> py_error + form_obj" where
  "call_form_class form_class args keywords =
     (if ''parent_app'' \<in> fst ` set keywords then Inl TypeError
      else form_class args keywords)"

text \<open>
  A call that returns: the new object gets an address that was never used. A call that
  raises builds nothing.
\<close>

definition new_form ::
  "form_class \<Rightarrow> pyargs \<Rightarrow> pykwargs \<Rightarrow> app \<Rightarrow> py_error + (form_ref \<times> app)" where
  "new_form form_class args keywords s =
     (case call_form_class form_class args keywords of
        Inl e \<Rightarrow> Inl e
      | Inr obj \<Rightarrow>
          Inr (next_ref s,
               s\<lparr>objs := (objs s)(next_ref s := obj), next_ref := Suc (next_ref s)\<rparr>))"

text \<open>
  \<open>add_form\<close>: an exception of the constructor call is not caught, and nothing is
  registered then.
\<close>

definition add_form ::
  "string \<Rightarrow> form_class \<Rightarrow> pyargs \<Rightarrow> pykwargs \<Rightarrow> app \<Rightarrow> (py_error \<times> app) + (form_ref \<times> app)" where
  "add_form form_id form_class args keywords s =
     (case new_form form_class args keywords s of
        Inl e \<Rightarrow> Inl (e, s)
      | Inr (form, s1) \<Rightarrow> Inr (form, register_form form_id form s1))"

text \<open>
  \<open>remove_form\<close>: \<open>del self._Forms[form_id].parentApp\<close>, then \<open>del self._Forms[form_id]\<close>.
  The first statement raises \<open>KeyError\<close> for an unknown identifier and
  \<open>AttributeError\<close> when the stored value has no attribute \<open>parentApp\<close>, as the list
  stored by \<open>add_form_class\<close> has none; the second statement is then not reached.
\<close>

definition remove_form :: "string \<Rightarrow> app \<Rightarrow> result" where
  "remove_form form_id s =
     (case Forms s form_id of
        None \<Rightarrow> Inl (KeyError, s)
      | Some (FormClass c a k) \<Rightarrow> Inl (AttributeError, s)
      | Some (FormInstance form) \<Rightarrow>
          if parentApp (objs s form)
          then Inr (s\<lparr>objs := (objs s)(form := (objs s form)\<lparr>parentApp := False\<rparr>),
                      Forms := (Forms s)(form_id := None)\<rparr>)
          else Inl (AttributeError, s))"

text \<open>
  \<open>get_form\<close>: \<open>weakref.proxy\<close> of the stored value; a list cannot be weakly referenced
  (\<open>TypeError\<close>).
\<close>

definition get_form :: "string \<Rightarrow> app \<Rightarrow> py_error + form_ref" where
  "get_form name s =
     (case Forms s name of
        None \<Rightarrow> Inl KeyError
      | Some (FormClass c a k) \<Rightarrow> Inl TypeError
      | Some (FormInstance form) \<Rightarrow> Inr form)"

section \<open>Transitions requested by screens\<close>

definition set_next_form :: "string option \<Rightarrow> app \<Rightarrow> app" where
  "set_next_form form_id s = s\<lparr>NEXT_ACTIVE_FORM := form_id\<rparr>"

text \<open>
  Python's \<open>xs[i]\<close>: a negative index counts from the end, an index out of range raises
  \<open>IndexError\<close>.
\<close>

definition py_index :: "'a list \<Rightarrow> int \<Rightarrow> py_error + nat" where
  "py_index xs i =
     (if 0 \<le> i \<and> i < int (length xs) then Inr (nat i)
      else if i < 0 \<and> - int (length xs) \<le> i then Inr (nat (int (length xs) + i))
      else Inl IndexError)"

text \<open>
  The position denoted by \<open>self._THIS_FORM._widgets__[self._THIS_FORM.editw]\<close>:
  \<open>AttributeError\<close> when the form has no \<open>_widgets__\<close> or no \<open>editw\<close>.
\<close>

definition focused_widget :: "form_obj \<Rightarrow> py_error + nat" where
  "focused_widget f =
     (case widgets f of
        None \<Rightarrow> Inl AttributeError
      | Some ws \<Rightarrow>
          (case editw f of
             None \<Rightarrow> Inl AttributeError
           | Some i \<Rightarrow> py_index ws i))"

text \<open>
  The two \<open>try\<close> blocks of \<open>switch_form_now\<close>. Both handlers catch \<open>AttributeError\<close>
  and \<open>IndexError\<close>, the only exceptions these statements raise, and pass.
\<close>

definition clear_widget_editing :: "form_obj \<Rightarrow> form_obj" where
  "clear_widget_editing f =
     (case focused_widget f of
        Inl e \<Rightarrow> f
      | Inr i \<Rightarrow>
          (case widgets f of
             None \<Rightarrow> f
           | Some ws \<Rightarrow> f\<lparr>widgets := Some (ws[i := (ws ! i)\<lparr>wg_editing := False\<rparr>])\<rparr>))"

definition clear_entry_widget_editing :: "form_obj \<Rightarrow> form_obj" where
  "clear_entry_widget_editing f =
     (case focused_widget f of
        Inl e \<Rightarrow> f
      | Inr i \<Rightarrow>
          (case widgets f of
             None \<Rightarrow> f
           | Some ws \<Rightarrow>
               (case entry_widget (ws ! i) of
                  None \<Rightarrow> f
                | Some b \<Rightarrow> f\<lparr>widgets := Some (ws[i := (ws ! i)\<lparr>entry_widget := Some False\<rparr>])\<rparr>)))"

text \<open>
  \<open>self._THIS_FORM.editing = False\<close> raises \<open>AttributeError\<close> while \<open>_THIS_FORM\<close> is
  \<open>None\<close>, outside every \<open>try\<close>.
\<close>

definition set_editing_false :: "app \<Rightarrow> result" where
  "set_editing_false s =
     (case THIS_FORM s of
        None \<Rightarrow> Inl (AttributeError, s)
      | Some r \<Rightarrow> Inr (s\<lparr>objs := (objs s)(r := (objs s r)\<lparr>editing := False\<rparr>)\<rparr>))"

definition switch_form_now :: "app \<Rightarrow> result" where
  "switch_form_now s =
     and_then (set_editing_false s) (\<lambda>s1.
       (case THIS_FORM s1 of
          None \<Rightarrow> Inl (AttributeError, s1)
        | Some r \<Rightarrow>
            Inr (s1\<lparr>objs := (objs s1)
                   (r := clear_entry_widget_editing (clear_widget_editing (objs s1 r)))\<rparr>)))"

definition switch_form :: "string option \<Rightarrow> app \<Rightarrow> result" where
  "switch_form form_id s =
     and_then (set_editing_false s) (\<lambda>s1. switch_form_now (set_next_form form_id s1))"

text \<open>Python's \<open>list.pop()\<close>: the last element and the rest, \<open>IndexError\<close> on \<open>[]\<close>.\<close>

definition list_pop :: "'a list \<Rightarrow> py_error + ('a \<times> 'a list)" where
  "list_pop xs = (if xs = [] then Inl IndexError else Inr (last xs, butlast xs))"

definition remove_last_form_from_history :: "app \<Rightarrow> result" where
  "remove_last_form_from_history s =
     (case list_pop (FORM_VISIT_LIST s) of
        Inl e \<Rightarrow> Inl (e, s)
      | Inr (x, h1) \<Rightarrow>
          (let s1 = s\<lparr>FORM_VISIT_LIST := h1\<rparr>
           in case list_pop h1 of
                Inl e \<Rightarrow> Inl (e, s1)
              | Inr (y, h2) \<Rightarrow> Inr (s1\<lparr>FORM_VISIT_LIST := h2\<rparr>)))"

text \<open>
  \<open>set_next_form_previous\<close>. \<open>self._THIS_FORM.FORM_NAME\<close> is read first and raises
  \<open>AttributeError\<close> (not caught); \<open>self._FORM_VISIT_LIST[-1]\<close> and the \<open>pop()\<close> of the
  second test raise \<open>IndexError\<close> on an empty list, which the handler turns into
  \<open>set_next_form(backup)\<close>, keeping a pop that was already made.
\<close>

definition set_next_form_previous :: "string option \<Rightarrow> app \<Rightarrow> result" where
  "set_next_form_previous backup s =
     (case THIS_FORM s of
        None \<Rightarrow> Inl (AttributeError, s)
      | Some r \<Rightarrow>
          (case FORM_NAME (objs s r) of
             None \<Rightarrow> Inl (AttributeError, s)
           | Some name \<Rightarrow>
               if FORM_VISIT_LIST s = [] then Inr (set_next_form backup s)
               else
                 (let s1 = (if name = last (FORM_VISIT_LIST s)
                            then s\<lparr>FORM_VISIT_LIST := butlast (FORM_VISIT_LIST s)\<rparr>
                            else s)
                  in if Some name = NEXT_ACTIVE_FORM s1
                     then (case list_pop (FORM_VISIT_LIST s1) of
                             Inl e \<Rightarrow> Inr (set_next_form backup s1)
                           | Inr (x, h) \<Rightarrow>
                               Inr (set_next_form (Some x) (s1\<lparr>FORM_VISIT_LIST := h\<rparr>)))
                     else Inr s1)))"

definition switch_form_previous :: "app \<Rightarrow> result" where
  "switch_form_previous s =
     and_then (set_next_form_previous (Some STARTING_FORM) s) switch_form_now"

definition get_history :: "app \<Rightarrow> string list" where
  "get_history s = FORM_VISIT_LIST s"

definition reset_history :: "app \<Rightarrow> app" where
  "reset_history s = s\<lparr>FORM_VISIT_LIST := []\<rparr>"

section \<open>What a screen does while it is active\<close>

text \<open>
  The calls that the methods of a form (and the handlers they run) make on the
  application while the form is active.
\<close>

datatype call =
  SetNextForm "string option"
  | SwitchForm "string option"
  | SwitchFormNow
  | RemoveLastFormFromHistory
  | SwitchFormPrevious
  | SetNextFormPrevious "string option"
  | ResetHistory
  | AddFormClass string form_class pyargs pykwargs
  | AddForm string form_class pyargs pykwargs
  | RegisterForm string form_ref
  | RemoveForm string

fun exec_call :: "call \<Rightarrow> app \<Rightarrow> result" where
  "exec_call (SetNextForm form_id) s = Inr (set_next_form form_id s)"
| "exec_call (SwitchForm form_id) s = switch_form form_id s"
| "exec_call SwitchFormNow s = switch_form_now s"
| "exec_call RemoveLastFormFromHistory s = remove_last_form_from_history s"
| "exec_call SwitchFormPrevious s = switch_form_previous s"
| "exec_call (SetNextFormPrevious backup) s = set_next_form_previous backup s"
| "exec_call ResetHistory s = Inr (reset_history s)"
| "exec_call (AddFormClass form_id c a k) s = Inr (add_form_class form_id c a k s)"
| "exec_call (AddForm form_id c a k) s =
     (case add_form form_id c a k s of Inl e \<Rightarrow> Inl e | Inr (form, s1) \<Rightarrow> Inr s1)"
| "exec_call (RegisterForm form_id form) s = Inr (register_form form_id form s)"
| "exec_call (RemoveForm form_id) s = remove_form form_id s"

text \<open>A method body: its calls in order; an exception is not caught by the form.\<close>

fun exec_calls :: "call list \<Rightarrow> app \<Rightarrow> result" where
  "exec_calls [] s = Inr s"
| "exec_calls (c # cs) s = and_then (exec_call c s) (exec_calls cs)"

text \<open>
  The methods of a form that \<open>main\<close> calls. What they do depends on the user's input, so
  the bodies are a parameter of the loop: for each iteration, the calls each method makes.
\<close>

datatype form_method = Activate | BeforeEditing | Edit | AfterEditing

type_synonym behaviour = "form_method \<Rightarrow> call list"

section \<open>The main loop\<close>

text \<open>The three hooks of \<open>NPSAppManaged\<close>; their bodies are \<open>pass\<close>.\<close>

definition on_start :: "app \<Rightarrow> app" where
  "on_start s = log_event EvOnStart s"

definition on_in_main_loop :: "app \<Rightarrow> app" where
  "on_in_main_loop s = log_event EvOnInMainLoop s"

definition on_clean_exit :: "app \<Rightarrow> app" where
  "on_clean_exit s = log_event EvOnCleanExit s"

text \<open>The loop condition: \<open>NEXT_ACTIVE_FORM != "" and NEXT_ACTIVE_FORM is not None\<close>.\<close>

definition loop_condition :: "app \<Rightarrow> bool" where
  "loop_condition s = (NEXT_ACTIVE_FORM s \<noteq> Some [] \<and> NEXT_ACTIVE_FORM s \<noteq> None)"

text \<open>
  The \<open>try\<close> statement of the loop (lines 162 to 166). Unpacking the stored value
  succeeds for the list of \<open>add_form_class\<close>, and the class is called; unpacking a form
  object raises \<open>TypeError\<close>, and the handler takes the stored object itself. The
  handler also catches a \<open>TypeError\<close> that the call of the class raises: \<open>_THIS_FORM\<close>
  is then the stored list, which is not a form. Any other exception of the call leaves
  the loop.
\<close>

definition resolve_form :: "entry \<Rightarrow> app \<Rightarrow> result" where
  "resolve_form e s =
     (case e of
        FormClass form_class a k \<Rightarrow>
          (case new_form form_class a k s of
             Inr (form, s1) \<Rightarrow> Inr (s1\<lparr>THIS_FORM := Some form\<rparr>)
           | Inl err \<Rightarrow>
               if err = TypeError then Inr (s\<lparr>THIS_FORM := None\<rparr>) else Inl (err, s))
      | FormInstance form \<Rightarrow> Inr (s\<lparr>THIS_FORM := Some form\<rparr>))"

text \<open>
  The history update of the loop: the identifier is appended unless it is already the
  last element.
\<close>

definition visit :: "string \<Rightarrow> app \<Rightarrow> app" where
  "visit name s =
     (if length (FORM_VISIT_LIST s) > 0
      then (if last (FORM_VISIT_LIST s) \<noteq> name
            then s\<lparr>FORM_VISIT_LIST := FORM_VISIT_LIST s @ [name]\<rparr>
            else s)
      else s\<lparr>FORM_VISIT_LIST := FORM_VISIT_LIST s @ [name]\<rparr>)"

text \<open>
  The \<open>if hasattr(self._THIS_FORM, "activate")\<close> statement. \<open>resize\<close>, \<open>activate\<close>
  and \<open>edit\<close> are logged; each method then makes its calls.
\<close>

definition run_form :: "behaviour \<Rightarrow> form_ref \<Rightarrow> app \<Rightarrow> result" where
  "run_form bh r s =
     (if has_activate (objs s r)
      then exec_calls (bh Activate) (log_event (EvActivate r) (log_event (EvResize r) s))
      else
        and_then
          (if has_before_editing (objs s r)
           then exec_calls (bh BeforeEditing) (log_event (EvBeforeEditing r) s)
           else Inr s)
          (\<lambda>s1.
             and_then
               (exec_calls (bh Edit) (log_event (EvEdit r) (log_event (EvResize r) s1)))
               (\<lambda>s2.
                  if has_after_editing (objs s2 r)
                  then exec_calls (bh AfterEditing) (log_event (EvAfterEditing r) s2)
                  else Inr s2)))"

text \<open>
  The first half of an iteration of the \<open>while\<close> loop, up to the history update:
  the form to run and the state in which it runs. \<open>self._Forms[self.NEXT_ACTIVE_FORM]\<close>
  raises \<open>KeyError\<close> for an identifier that is not registered, and the assignment to
  \<open>self._THIS_FORM.FORM_NAME\<close> raises \<open>AttributeError\<close> when \<open>_THIS_FORM\<close> is not a
  form.
\<close>

definition enter_form :: "app \<Rightarrow> (py_error \<times> app) + (form_ref \<times> app)" where
  "enter_form s =
     (case NEXT_ACTIVE_FORM s of
        None \<Rightarrow> Inl (KeyError, s)
      | Some name \<Rightarrow>
          (case Forms s name of
             None \<Rightarrow> Inl (KeyError, s)
           | Some e \<Rightarrow>
               (case resolve_form e
                       (s\<lparr>LAST_NEXT_ACTIVE_FORM := Some e, LAST_ACTIVE_FORM_NAME := Some name\<rparr>) of
                  Inl err \<Rightarrow> Inl err
                | Inr s2 \<Rightarrow>
                    (case THIS_FORM s2 of
                       None \<Rightarrow> Inl (AttributeError, s2)
                     | Some r \<Rightarrow>
                         Inr (r, visit name
                                (s2\<lparr>objs := (objs s2)(r := (objs s2 r)\<lparr>FORM_NAME := Some name\<rparr>),
                                    ACTIVE_FORM_NAME := Some name\<rparr>))))))"

text \<open>One iteration of the \<open>while\<close> loop.\<close>

definition loop_body :: "behaviour \<Rightarrow> app \<Rightarrow> result" where
  "loop_body bh s =
     (case enter_form s of
        Inl e \<Rightarrow> Inl e
      | Inr (r, s4) \<Rightarrow> and_then (run_form bh r s4) (\<lambda>s5. Inr (on_in_main_loop s5)))"

text \<open>
  The \<open>while\<close> loop, with the number of the iteration. It runs for as long as the screens
  keep asking for a next form, so it is given fuel: \<open>None\<close> is "still running".
\<close>

fun main_loop :: "nat \<Rightarrow> (nat \<Rightarrow> behaviour) \<Rightarrow> nat \<Rightarrow> app \<Rightarrow> result option" where
  "main_loop 0 env i s = None"
| "main_loop (Suc fuel) env i s =
     (if loop_condition s
      then (case loop_body (env i) s of
              Inl e \<Rightarrow> Some (Inl e)
            | Inr s1 \<Rightarrow> main_loop fuel env (Suc i) s1)
      else Some (Inr s))"

definition main :: "nat \<Rightarrow> (nat \<Rightarrow> behaviour) \<Rightarrow> app \<Rightarrow> result option" where
  "main fuel env s =
     (case main_loop fuel env 0 (on_start s) of
        None \<Rightarrow> None
      | Some (Inl e) \<Rightarrow> Some (Inl e)
      | Some (Inr s1) \<Rightarrow> Some (Inr (on_clean_exit s1)))"

text \<open>The state that an outcome leaves behind.\<close>

definition state_of :: "result \<Rightarrow> app" where
  "state_of r = (case r of Inl (e, s) \<Rightarrow> s | Inr s \<Rightarrow> s)"

section \<open>The single-selection list (selectone.py)\<close>

text \<open>Python values that the \<open>value\<close> of the widget can hold.\<close>

datatype pyval = PyNone | PyInt int | PyStr string | PyTuple "pyval list" | PyList "pyval list"

text \<open>\<open>hasattr(v, "append")\<close>: of these values, only a list has the method.\<close>

fun has_append :: "pyval \<Rightarrow> bool" where
  "has_append (PyList xs) = True"
| "has_append v = False"

record select_one =
  hidden :: bool
  sel_value :: pyval
  sel_values :: "pyval list"
  cursor_line :: int

text \<open>
  \<open>SelectOne.update\<close>. \<open>self.clear\<close> and the \<open>update\<close> of the base class
  \<open>multiline.MultiLine\<close>, which draws the rows, are parameters. The result is the returned
  value (\<open>Some False\<close> for \<open>False\<close>, \<open>None\<close> for no \<open>return\<close>) and the widget.
\<close>

definition SelectOne_update ::
  "(select_one \<Rightarrow> select_one) \<Rightarrow> (bool \<Rightarrow> select_one \<Rightarrow> select_one) \<Rightarrow> bool \<Rightarrow> select_one
     \<Rightarrow> bool option \<times> select_one" where
  "SelectOne_update clear_widget super_update clear w =
     (if hidden w then (Some False, clear_widget w)
      else
        (let w1 = (if \<not> has_append (sel_value w)
                   then (if sel_value w \<noteq> PyNone
                         then w\<lparr>sel_value := PyList [sel_value w]\<rparr>
                         else w\<lparr>sel_value := PyList []\<rparr>)
                   else w)
         in (None, super_update clear w1)))"

definition h_select :: "select_one \<Rightarrow> select_one" where
  "h_select w = w\<lparr>sel_value := PyList [PyInt (cursor_line w)]\<rparr>"

section \<open>A sample application\<close>

text \<open>
  Concrete forms and a concrete application, on which the theorems below are run: a form
  with a plain widget and a title widget, focus on the title widget; the same form with an
  \<open>activate\<close> method; and an application with \<open>MAIN\<close> and \<open>SECOND\<close> registered as
  objects and \<open>THIRD\<close> as a class, as in \<open>EXAMPLE-multiple-screens.py\<close>.
\<close>

definition plain_form :: form_obj where
  "plain_form =
     \<lparr>editing = True, FORM_NAME = None, parentApp = False,
      widgets = Some [\<lparr>wg_editing = True, entry_widget = None\<rparr>,
                      \<lparr>wg_editing = True, entry_widget = Some True\<rparr>],
      editw = Some 1,
      has_activate = False, has_before_editing = True, has_after_editing = True\<rparr>"

definition active_form :: form_obj where
  "active_form = plain_form\<lparr>has_activate := True\<rparr>"

definition MainForm :: form_class where
  "MainForm a k = Inr plain_form"

text \<open>The application that a call of \<open>add_form\<close> leaves.\<close>

definition added :: "(py_error \<times> app) + (form_ref \<times> app) \<Rightarrow> app" where
  "added r = (case r of Inl (e, s) \<Rightarrow> s | Inr (form, s) \<Rightarrow> s)"

definition sample_app :: app where
  "sample_app =
     add_form_class ''THIRD'' MainForm [] [(''name'', ''Screen 3'')]
       (added (add_form ''SECOND'' MainForm [] [(''name'', ''Screen 2'')]
          (added (add_form ''MAIN'' MainForm [] [(''name'', ''Screen 1'')]
             (init_app (\<lambda>r. plain_form) 0)))))"

text \<open>
  The sample application with one more class entry, \<open>BROKEN\<close>, whose keywords bind
  \<open>parent_app\<close>, and with that entry requested.
\<close>

definition broken_app :: app where
  "broken_app =
     set_next_form (Some ''BROKEN'')
       (add_form_class ''BROKEN'' MainForm [] [(''parent_app'', ''x'')] sample_app)"

text \<open>Every registered object exists: its address has been handed out.\<close>

definition registry_ok :: "app \<Rightarrow> bool" where
  "registry_ok s = (\<forall>name r. Forms s name = Some (FormInstance r) \<longrightarrow> r < next_ref s)"

text \<open>
  Between two states, no object that exists in the first has gained or lost a method,
  and no address has been given back.
\<close>

definition keeps_methods :: "app \<Rightarrow> app \<Rightarrow> bool" where
  "keeps_methods s t =
     (next_ref s \<le> next_ref t
      \<and> (\<forall>q<next_ref s.
            has_activate (objs t q) = has_activate (objs s q)
            \<and> has_before_editing (objs t q) = has_before_editing (objs s q)
            \<and> has_after_editing (objs t q) = has_after_editing (objs s q)))"

text \<open>
  A value of \<open>NEXT_ACTIVE_FORM\<close> with which the loop goes on to a screen or ends: one
  that ends the loop, the identifier of a registered object, or the identifier of a class
  entry whose call returns an object.
\<close>

definition resolvable :: "app \<Rightarrow> string option \<Rightarrow> bool" where
  "resolvable s x =
     (case x of
        None \<Rightarrow> True
      | Some name \<Rightarrow>
          name = [] \<or>
          (case Forms s name of
             None \<Rightarrow> False
           | Some (FormInstance r) \<Rightarrow> True
           | Some (FormClass c a k) \<Rightarrow>
               (case call_form_class c a k of Inl e \<Rightarrow> False | Inr obj \<Rightarrow> True)))"

text \<open>The sample application while \<open>SECOND\<close> is active, reached from \<open>MAIN\<close>.\<close>

definition on_second :: app where
  "on_second =
     sample_app
       \<lparr>FORM_VISIT_LIST := [''MAIN'', ''SECOND''], NEXT_ACTIVE_FORM := Some ''SECOND'',
        THIS_FORM := Some 1, ACTIVE_FORM_NAME := Some ''SECOND'',
        objs := (objs sample_app)(1 := (objs sample_app 1)\<lparr>FORM_NAME := Some ''SECOND''\<rparr>)\<rparr>"

text \<open>
  Screens that do nothing but ask for a next form (\<open>set_next_form\<close>) while they are
  edited or activated: \<open>reqs i\<close> are the identifiers asked for in iteration \<open>i\<close>.
\<close>

definition request_env :: "(nat \<Rightarrow> string option list) \<Rightarrow> nat \<Rightarrow> behaviour" where
  "request_env reqs i m =
     (if m = Activate \<or> m = Edit then map SetNextForm (reqs i) else [])"

text \<open>
  The requests that a screen makes in one iteration when each of its methods asks for
  the identifiers \<open>rq m\<close>: which methods run depends on the methods the screen has.
\<close>

definition requests_made :: "(form_method \<Rightarrow> string option list) \<Rightarrow> form_obj \<Rightarrow> string option list" where
  "requests_made rq f =
     (if has_activate f then rq Activate
      else (if has_before_editing f then rq BeforeEditing else [])
           @ rq Edit
           @ (if has_after_editing f then rq AfterEditing else []))"

text \<open>
  The user stays on \<open>MAIN\<close> once, then goes to \<open>SECOND\<close>, to \<open>THIRD\<close>, and leaves.
\<close>

definition sample_requests :: "nat \<Rightarrow> string option list" where
  "sample_requests i =
     (if i = 0 then [Some ''MAIN'']
      else if i = 1 then [Some ''SECOND'']
      else if i = 2 then [Some ''THIRD'']
      else [Some ''MAIN'', None])"

text \<open>
  The sequence of calls that the description of the loop prescribes for one screen:
  \<open>activate\<close> alone when the screen has it, otherwise \<open>before_editing\<close> (if present),
  the edit cycle, \<open>after_editing\<close> (if present). \<open>resize\<close> precedes \<open>activate\<close> and
  \<open>edit\<close>.
\<close>

definition activation_sequence :: "form_ref \<Rightarrow> bool \<Rightarrow> bool \<Rightarrow> bool \<Rightarrow> event list" where
  "activation_sequence r act before after =
     (if act then [EvResize r, EvActivate r]
      else (if before then [EvBeforeEditing r] else [])
           @ [EvResize r, EvEdit r]
           @ (if after then [EvAfterEditing r] else []))"

section \<open>Auxiliary facts\<close>

lemma state_of_simps [simp]: "state_of (Inr s) = s" "state_of (Inl (e, s)) = s"
  by (simp_all add: state_of_def)

lemma and_then_simps [simp]: "and_then (Inr s) f = f s" "and_then (Inl x) f = Inl x"
  by (simp_all add: and_then_def)

lemma log_event_frame [simp]:
  "FORM_VISIT_LIST (log_event ev s) = FORM_VISIT_LIST s"
  "trace (log_event ev s) = trace s @ [ev]"
  "next_ref (log_event ev s) = next_ref s"
  "objs (log_event ev s) = objs s"
  "Forms (log_event ev s) = Forms s"
  "NEXT_ACTIVE_FORM (log_event ev s) = NEXT_ACTIVE_FORM s"
  by (simp_all add: log_event_def)

text \<open>
  A relation between the state before and the state after that every call and every
  logged event respects is respected by a method body and by the run of a form.
\<close>

lemma and_then_rel:
  assumes "R s (state_of a)" and "\<And>t. R s t \<Longrightarrow> R s (state_of (f t))"
  shows "R s (state_of (and_then a f))"
proof (cases a)
  case (Inl x)
  with assms(1) show ?thesis by simp
next
  case (Inr t)
  with assms show ?thesis by simp
qed

lemma exec_calls_rel:
  assumes step: "\<And>c t. R t (state_of (exec_call c t))"
    and refl: "\<And>t. R t t"
    and trans: "\<And>a b c. R a b \<Longrightarrow> R b c \<Longrightarrow> R a c"
  shows "R s (state_of (exec_calls cs s))"
proof (induction cs arbitrary: s)
  case Nil
  show ?case by (simp add: refl)
next
  case (Cons c cs)
  show ?case
  proof (cases "exec_call c s")
    case (Inl x)
    with step [of s c] show ?thesis by simp
  next
    case (Inr t)
    with step [of s c] have "R s t" by simp
    with Cons [of t] Inr show ?thesis by (auto intro: trans)
  qed
qed

lemma run_form_rel:
  assumes step: "\<And>c t. R t (state_of (exec_call c t))"
    and log: "\<And>ev t. R t (log_event ev t)"
    and refl: "\<And>t. R t t"
    and trans: "\<And>a b c. R a b \<Longrightarrow> R b c \<Longrightarrow> R a c"
  shows "R s (state_of (run_form bh r s))"
proof -
  have calls: "R t (state_of (exec_calls cs t))" for cs t
    by (rule exec_calls_rel [of R, OF step refl trans])
  have logged: "R t (state_of (exec_calls cs (log_event ev t)))" for cs t ev
    using trans [OF log calls] .
  have logged2: "R t (state_of (exec_calls cs (log_event ev (log_event ev' t))))" for cs t ev ev'
    using trans [OF log logged] .
  have edit_part: "R t (state_of
      (and_then (exec_calls (bh Edit) (log_event (EvEdit r) (log_event (EvResize r) t)))
         (\<lambda>s2. if has_after_editing (objs s2 r)
                then exec_calls (bh AfterEditing) (log_event (EvAfterEditing r) s2)
                else Inr s2)))" for t
  proof (rule and_then_rel [of R])
    show "R t (state_of (exec_calls (bh Edit) (log_event (EvEdit r) (log_event (EvResize r) t))))"
      by (rule logged2)
  next
    fix u
    assume u: "R t u"
    from trans [OF u logged] u
    show "R t (state_of (if has_after_editing (objs u r)
                then exec_calls (bh AfterEditing) (log_event (EvAfterEditing r) u)
                else Inr u))"
      by simp
  qed
  show ?thesis
  proof (cases "has_activate (objs s r)")
    case True
    then show ?thesis by (simp add: run_form_def logged2)
  next
    case False
    show ?thesis
    proof (cases "has_before_editing (objs s r)")
      case True
      have "R s (state_of (and_then (exec_calls (bh BeforeEditing) (log_event (EvBeforeEditing r) s))
         (\<lambda>s1. and_then (exec_calls (bh Edit) (log_event (EvEdit r) (log_event (EvResize r) s1)))
           (\<lambda>s2. if has_after_editing (objs s2 r)
                then exec_calls (bh AfterEditing) (log_event (EvAfterEditing r) s2)
                else Inr s2))))"
      proof (rule and_then_rel [of R])
        show "R s (state_of (exec_calls (bh BeforeEditing) (log_event (EvBeforeEditing r) s)))"
          by (rule logged)
      next
        fix t
        assume "R s t"
        from trans [OF this edit_part]
        show "R s (state_of
          (and_then (exec_calls (bh Edit) (log_event (EvEdit r) (log_event (EvResize r) t)))
           (\<lambda>s2. if has_after_editing (objs s2 r)
                then exec_calls (bh AfterEditing) (log_event (EvAfterEditing r) s2)
                else Inr s2)))" .
      qed
      with False True show ?thesis by (simp add: run_form_def)
    next
      case no_before: False
      with False edit_part [of s] show ?thesis by (simp add: run_form_def)
    qed
  qed
qed

text \<open>What each call leaves unchanged.\<close>

lemma switch_form_now_frame:
  "FORM_VISIT_LIST (state_of (switch_form_now s)) = FORM_VISIT_LIST s"
  "trace (state_of (switch_form_now s)) = trace s"
  "next_ref (state_of (switch_form_now s)) = next_ref s"
  by (simp_all add: switch_form_now_def set_editing_false_def split: option.splits)

lemma switch_form_frame:
  "FORM_VISIT_LIST (state_of (switch_form x s)) = FORM_VISIT_LIST s"
  "trace (state_of (switch_form x s)) = trace s"
  "next_ref (state_of (switch_form x s)) = next_ref s"
  by (simp_all add: switch_form_def switch_form_now_def set_editing_false_def set_next_form_def
      split: option.splits)

lemma distinct_adj_butlast: "distinct_adj xs \<Longrightarrow> distinct_adj (butlast xs)"
  by (cases xs rule: rev_cases) (auto simp: distinct_adj_append_iff)

lemma remove_last_frame:
  "distinct_adj (FORM_VISIT_LIST s) \<Longrightarrow>
     distinct_adj (FORM_VISIT_LIST (state_of (remove_last_form_from_history s)))"
  "trace (state_of (remove_last_form_from_history s)) = trace s"
  "next_ref (state_of (remove_last_form_from_history s)) = next_ref s"
  by (simp_all add: remove_last_form_from_history_def list_pop_def distinct_adj_butlast)

lemma set_next_form_previous_frame:
  "distinct_adj (FORM_VISIT_LIST s) \<Longrightarrow>
     distinct_adj (FORM_VISIT_LIST (state_of (set_next_form_previous b s)))"
  "trace (state_of (set_next_form_previous b s)) = trace s"
  "next_ref (state_of (set_next_form_previous b s)) = next_ref s"
  by (simp_all add: set_next_form_previous_def set_next_form_def list_pop_def Let_def
      distinct_adj_butlast split: option.splits)

lemma switch_form_previous_frame:
  "distinct_adj (FORM_VISIT_LIST s) \<Longrightarrow>
     distinct_adj (FORM_VISIT_LIST (state_of (switch_form_previous s)))"
  "trace (state_of (switch_form_previous s)) = trace s"
  "next_ref (state_of (switch_form_previous s)) = next_ref s"
proof -
  show "distinct_adj (FORM_VISIT_LIST s) \<Longrightarrow>
     distinct_adj (FORM_VISIT_LIST (state_of (switch_form_previous s)))"
    using set_next_form_previous_frame(1) [of s "Some STARTING_FORM"]
    by (cases "set_next_form_previous (Some STARTING_FORM) s")
      (auto simp: switch_form_previous_def switch_form_now_frame)
  show "trace (state_of (switch_form_previous s)) = trace s"
    using set_next_form_previous_frame(2) [of "Some STARTING_FORM" s]
    by (cases "set_next_form_previous (Some STARTING_FORM) s")
      (auto simp: switch_form_previous_def switch_form_now_frame)
  show "next_ref (state_of (switch_form_previous s)) = next_ref s"
    using set_next_form_previous_frame(3) [of "Some STARTING_FORM" s]
    by (cases "set_next_form_previous (Some STARTING_FORM) s")
      (auto simp: switch_form_previous_def switch_form_now_frame)
qed

lemma remove_form_frame:
  "FORM_VISIT_LIST (state_of (remove_form x s)) = FORM_VISIT_LIST s"
  "trace (state_of (remove_form x s)) = trace s"
  "next_ref (state_of (remove_form x s)) = next_ref s"
  by (simp_all add: remove_form_def split: option.splits entry.splits)

lemma add_form_call_frame:
  "FORM_VISIT_LIST (state_of (exec_call (AddForm x c a k) s)) = FORM_VISIT_LIST s"
  "trace (state_of (exec_call (AddForm x c a k) s)) = trace s"
  "next_ref s \<le> next_ref (state_of (exec_call (AddForm x c a k) s))"
  by (simp_all add: add_form_def new_form_def register_form_def split: sum.splits)

lemma exec_call_history:
  assumes "distinct_adj (FORM_VISIT_LIST s)"
  shows "distinct_adj (FORM_VISIT_LIST (state_of (exec_call c s)))"
proof (cases c)
  case (AddForm x c' a k)
  with assms show ?thesis
    using add_form_call_frame(1) [where x = x and c = c' and a = a and k = k and s = s]
    by simp
qed (use assms in \<open>simp_all add: switch_form_frame switch_form_now_frame remove_last_frame
      set_next_form_previous_frame switch_form_previous_frame remove_form_frame
      set_next_form_def reset_history_def add_form_class_def register_form_def\<close>)

lemma exec_call_trace: "trace (state_of (exec_call c s)) = trace s"
proof (cases c)
  case (AddForm x c' a k)
  then show ?thesis
    using add_form_call_frame(2) [where x = x and c = c' and a = a and k = k and s = s]
    by simp
qed (simp_all add: switch_form_frame switch_form_now_frame remove_last_frame
      set_next_form_previous_frame switch_form_previous_frame remove_form_frame
      set_next_form_def reset_history_def add_form_class_def register_form_def)

lemma exec_call_next_ref: "next_ref s \<le> next_ref (state_of (exec_call c s))"
proof (cases c)
  case (AddForm x c' a k)
  then show ?thesis
    using add_form_call_frame(3) [where x = x and c = c' and a = a and k = k and s = s]
    by simp
qed (simp_all add: switch_form_frame switch_form_now_frame remove_last_frame
      set_next_form_previous_frame switch_form_previous_frame remove_form_frame
      set_next_form_def reset_history_def add_form_class_def register_form_def)

lemma run_form_next_ref: "next_ref s \<le> next_ref (state_of (run_form bh r s))"
  using run_form_rel [where R = "\<lambda>a b. next_ref a \<le> next_ref b" and s = s and bh = bh and r = r]
  by (simp add: exec_call_next_ref)

section \<open>History operations\<close>

text \<open>
  C10: \<open>remove_last_form_from_history\<close> pops twice without a test. On an empty history
  it raises \<open>IndexError\<close> and changes nothing; on a history of one entry it raises
  \<open>IndexError\<close> after that entry has been removed, so the failed call leaves the
  history empty; on a longer history it removes the last two entries.
\<close>

theorem remove_last_form_from_history_not_atomic:
  "(FORM_VISIT_LIST s = [] \<longrightarrow> remove_last_form_from_history s = Inl (IndexError, s))
   \<and> (\<forall>x. FORM_VISIT_LIST s = [x] \<longrightarrow>
          remove_last_form_from_history s = Inl (IndexError, s\<lparr>FORM_VISIT_LIST := []\<rparr>))
   \<and> (\<forall>h x y. FORM_VISIT_LIST s = h @ [x, y] \<longrightarrow>
          remove_last_form_from_history s = Inr (s\<lparr>FORM_VISIT_LIST := h\<rparr>))"
  by (auto simp: remove_last_form_from_history_def list_pop_def butlast_append)

theorem remove_last_form_from_history_not_atomic_witness:
  "remove_last_form_from_history (sample_app\<lparr>FORM_VISIT_LIST := [''MAIN'']\<rparr>)
     = Inl (IndexError, sample_app\<lparr>FORM_VISIT_LIST := []\<rparr>)
   \<and> remove_last_form_from_history (sample_app\<lparr>FORM_VISIT_LIST := []\<rparr>)
     = Inl (IndexError, sample_app\<lparr>FORM_VISIT_LIST := []\<rparr>)
   \<and> remove_last_form_from_history (sample_app\<lparr>FORM_VISIT_LIST := [''MAIN'', ''SECOND'', ''MAIN'']\<rparr>)
     = Inr (sample_app\<lparr>FORM_VISIT_LIST := [''MAIN'']\<rparr>)"
  using remove_last_form_from_history_not_atomic [of "sample_app\<lparr>FORM_VISIT_LIST := [''MAIN'']\<rparr>"]
    remove_last_form_from_history_not_atomic [of "sample_app\<lparr>FORM_VISIT_LIST := []\<rparr>"]
    remove_last_form_from_history_not_atomic
      [of "sample_app\<lparr>FORM_VISIT_LIST := [''MAIN'', ''SECOND'', ''MAIN'']\<rparr>"]
  by simp

lemma sample_app_simps:
  "Forms sample_app ''MAIN'' = Some (FormInstance 0)"
  "Forms sample_app ''SECOND'' = Some (FormInstance 1)"
  "Forms sample_app ''THIRD'' = Some (FormClass MainForm [] [(''name'', ''Screen 3'')])"
  "next_ref sample_app = 2"
  "FORM_VISIT_LIST sample_app = []"
  "NEXT_ACTIVE_FORM sample_app = Some ''MAIN''"
  "trace sample_app = []"
  "THIS_FORM sample_app = None"
  "objs sample_app 0 = plain_form\<lparr>parentApp := True\<rparr>"
  "objs sample_app 1 = plain_form\<lparr>parentApp := True\<rparr>"
  "objs sample_app (Suc 0) = plain_form\<lparr>parentApp := True\<rparr>"
  by (simp_all add: sample_app_def add_form_class_def add_form_def new_form_def register_form_def
      init_app_def STARTING_FORM_def MainForm_def added_def call_form_class_def)

section \<open>Going back\<close>

text \<open>
  C1: \<open>set_next_form_previous\<close> while the form named \<open>C\<close> is current. If the last
  entry of the history is \<open>C\<close> it is removed. If after that \<open>NEXT_ACTIVE_FORM\<close> is still
  \<open>C\<close>, the entry that is now last is removed and becomes \<open>NEXT_ACTIVE_FORM\<close>; if there is
  no such entry, \<open>NEXT_ACTIVE_FORM\<close> becomes the backup. A history that is empty from the
  start also gives the backup. The call never raises.
\<close>

theorem set_next_form_previous_two_stage:
  assumes "THIS_FORM s = Some r" and "FORM_NAME (objs s r) = Some C"
  shows "(FORM_VISIT_LIST s = h @ [C] \<and> NEXT_ACTIVE_FORM s \<noteq> Some C \<longrightarrow>
            set_next_form_previous backup s = Inr (s\<lparr>FORM_VISIT_LIST := h\<rparr>))
       \<and> (FORM_VISIT_LIST s = h @ [p, C] \<and> NEXT_ACTIVE_FORM s = Some C \<longrightarrow>
            set_next_form_previous backup s =
              Inr (s\<lparr>FORM_VISIT_LIST := h, NEXT_ACTIVE_FORM := Some p\<rparr>))
       \<and> (FORM_VISIT_LIST s = h @ [p] \<and> p \<noteq> C \<and> NEXT_ACTIVE_FORM s = Some C \<longrightarrow>
            set_next_form_previous backup s =
              Inr (s\<lparr>FORM_VISIT_LIST := h, NEXT_ACTIVE_FORM := Some p\<rparr>))
       \<and> (FORM_VISIT_LIST s = h @ [p] \<and> p \<noteq> C \<and> NEXT_ACTIVE_FORM s \<noteq> Some C \<longrightarrow>
            set_next_form_previous backup s = Inr s)
       \<and> (FORM_VISIT_LIST s = [C] \<and> NEXT_ACTIVE_FORM s = Some C \<longrightarrow>
            set_next_form_previous backup s =
              Inr (s\<lparr>FORM_VISIT_LIST := [], NEXT_ACTIVE_FORM := backup\<rparr>))
       \<and> (FORM_VISIT_LIST s = [] \<longrightarrow>
            set_next_form_previous backup s = Inr (s\<lparr>NEXT_ACTIVE_FORM := backup\<rparr>))"
  using assms
  by (auto simp: set_next_form_previous_def set_next_form_def list_pop_def butlast_append)

text \<open>
  From \<open>SECOND\<close> with history \<open>[MAIN, SECOND]\<close>: \<open>MAIN\<close> is requested and the history is
  left empty. With an empty history and backup \<open>MAIN\<close>: \<open>MAIN\<close> is requested.
\<close>

theorem set_next_form_previous_two_stage_witness:
  "set_next_form_previous (Some ''MAIN'') on_second =
     Inr (on_second\<lparr>FORM_VISIT_LIST := [], NEXT_ACTIVE_FORM := Some ''MAIN''\<rparr>)
   \<and> set_next_form_previous (Some ''MAIN'') (on_second\<lparr>FORM_VISIT_LIST := []\<rparr>) =
     Inr (on_second\<lparr>FORM_VISIT_LIST := [], NEXT_ACTIVE_FORM := Some ''MAIN''\<rparr>)"
proof -
  have this_form: "THIS_FORM on_second = Some 1" "FORM_NAME (objs on_second 1) = Some ''SECOND''"
    "THIS_FORM (on_second\<lparr>FORM_VISIT_LIST := []\<rparr>) = Some 1"
    "FORM_NAME (objs (on_second\<lparr>FORM_VISIT_LIST := []\<rparr>) 1) = Some ''SECOND''"
    by (simp_all add: on_second_def)
  have hist: "FORM_VISIT_LIST on_second = [] @ [''MAIN'', ''SECOND'']"
    "NEXT_ACTIVE_FORM on_second = Some ''SECOND''"
    by (simp_all add: on_second_def)
  from set_next_form_previous_two_stage
      [OF this_form(1,2), of "[]" "Some ''MAIN''" "''MAIN''"]
    set_next_form_previous_two_stage
      [OF this_form(3,4), of "[]" "Some ''MAIN''" "''MAIN''"]
    hist
  show ?thesis by simp
qed

section \<open>The history has no two equal neighbours\<close>

lemma visit_history:
  "FORM_VISIT_LIST (visit name s) =
     (if FORM_VISIT_LIST s \<noteq> [] \<and> last (FORM_VISIT_LIST s) = name
      then FORM_VISIT_LIST s else FORM_VISIT_LIST s @ [name])"
  by (simp add: visit_def)

lemma visit_distinct_adj:
  "distinct_adj (FORM_VISIT_LIST s) \<Longrightarrow> distinct_adj (FORM_VISIT_LIST (visit name s))"
  by (simp add: visit_history distinct_adj_append_iff)

lemma run_form_history:
  "distinct_adj (FORM_VISIT_LIST s) \<Longrightarrow> distinct_adj (FORM_VISIT_LIST (state_of (run_form bh r s)))"
  using run_form_rel
    [where R = "\<lambda>a b. distinct_adj (FORM_VISIT_LIST a) \<longrightarrow> distinct_adj (FORM_VISIT_LIST b)"
       and s = s and bh = bh and r = r]
  by (simp add: exec_call_history)

lemma enter_form_history:
  "distinct_adj (FORM_VISIT_LIST s) \<Longrightarrow> enter_form s = Inr (r, s4) \<Longrightarrow>
     distinct_adj (FORM_VISIT_LIST s4)"
  by (auto simp: enter_form_def resolve_form_def new_form_def visit_history
      distinct_adj_append_iff split: option.splits entry.splits if_splits sum.splits)

lemma enter_form_raises: "enter_form s = Inl x \<Longrightarrow> FORM_VISIT_LIST (snd x) = FORM_VISIT_LIST s"
  by (auto simp: enter_form_def resolve_form_def new_form_def
      split: option.splits entry.splits if_splits sum.splits)

lemma loop_body_history:
  assumes "distinct_adj (FORM_VISIT_LIST s)"
  shows "distinct_adj (FORM_VISIT_LIST (state_of (loop_body bh s)))"
proof (cases "enter_form s")
  case (Inl x)
  with assms enter_form_raises [OF Inl] show ?thesis
    by (cases x) (simp add: loop_body_def)
next
  case (Inr p)
  obtain r s4 where p: "p = (r, s4)" by (cases p)
  with Inr assms have d4: "distinct_adj (FORM_VISIT_LIST s4)"
    by (simp add: enter_form_history)
  from run_form_history [OF d4, of bh r]
  have "distinct_adj (FORM_VISIT_LIST (state_of
          (and_then (run_form bh r s4) (\<lambda>s5. Inr (on_in_main_loop s5)))))"
    by (cases "run_form bh r s4") (simp_all add: on_in_main_loop_def)
  with Inr p show ?thesis by (simp add: loop_body_def)
qed

lemma main_loop_history:
  "distinct_adj (FORM_VISIT_LIST s) \<Longrightarrow> main_loop fuel env i s = Some res \<Longrightarrow>
     distinct_adj (FORM_VISIT_LIST (state_of res))"
proof (induction fuel arbitrary: i s)
  case 0
  then show ?case by simp
next
  case (Suc fuel)
  show ?case
  proof (cases "loop_condition s")
    case False
    with Suc.prems show ?thesis by auto
  next
    case True
    show ?thesis
    proof (cases "loop_body (env i) s")
      case (Inl x)
      with True Suc.prems loop_body_history [of s "env i"] show ?thesis by auto
    next
      case (Inr s1)
      with loop_body_history [OF Suc.prems(1), of "env i"]
      have "distinct_adj (FORM_VISIT_LIST s1)" by simp
      from Suc.IH [OF this] Suc.prems(2) True Inr show ?thesis by simp
    qed
  qed
qed

text \<open>
  C2: the loop appends \<open>NEXT_ACTIVE_FORM\<close> to the history unless the history is not empty
  and ends with it. A history without two equal neighbours stays so through one
  iteration and through any number of iterations of the loop, whatever the screens call
  and whether or not an exception ends the run.
\<close>

theorem history_never_repeats_neighbours:
  assumes "distinct_adj (FORM_VISIT_LIST s)"
  shows "FORM_VISIT_LIST (visit name s) =
           (if FORM_VISIT_LIST s \<noteq> [] \<and> last (FORM_VISIT_LIST s) = name
            then FORM_VISIT_LIST s else FORM_VISIT_LIST s @ [name])
     \<and> distinct_adj (FORM_VISIT_LIST (visit name s))
     \<and> distinct_adj (FORM_VISIT_LIST (state_of (loop_body bh s)))
     \<and> (\<forall>res. main_loop fuel env i s = Some res \<longrightarrow>
           distinct_adj (FORM_VISIT_LIST (state_of res)))"
  using assms visit_history visit_distinct_adj loop_body_history main_loop_history
  by blast

lemma sample_run:
  "\<exists>s'. main_loop 6 (request_env sample_requests) 0 sample_app = Some (Inr s')
     \<and> FORM_VISIT_LIST s' = [''MAIN'', ''SECOND'', ''THIRD'']"
  by (simp add: eval_nat_numeral loop_condition_def loop_body_def enter_form_def
      resolve_form_def new_form_def call_form_class_def visit_def run_form_def request_env_def
      sample_requests_def set_next_form_def on_in_main_loop_def sample_app_simps plain_form_def
      MainForm_def)

theorem history_never_repeats_neighbours_witness:
  "distinct_adj (FORM_VISIT_LIST sample_app)
   \<and> (\<exists>res. main_loop 6 (request_env sample_requests) 0 sample_app = Some res
         \<and> FORM_VISIT_LIST (state_of res) = [''MAIN'', ''SECOND'', ''THIRD'']
         \<and> distinct_adj (FORM_VISIT_LIST (state_of res)))"
proof -
  have d: "distinct_adj (FORM_VISIT_LIST sample_app)"
    by (simp add: sample_app_simps)
  from sample_run obtain s' where
    run: "main_loop 6 (request_env sample_requests) 0 sample_app = Some (Inr s')"
      "FORM_VISIT_LIST s' = [''MAIN'', ''SECOND'', ''THIRD'']"
    by blast
  from history_never_repeats_neighbours
    [OF d, of "''MAIN''" "request_env sample_requests 0" 6 "request_env sample_requests" 0] run(1)
  have "distinct_adj (FORM_VISIT_LIST (state_of (Inr s')))" by blast
  with d run show ?thesis by simp
qed

section \<open>Resolving an identifier\<close>

lemma enter_form_class:
  assumes "NEXT_ACTIVE_FORM s = Some name" and "Forms s name = Some (FormClass c a k)"
    and "call_form_class c a k = Inr obj"
  shows "\<exists>s'. enter_form s = Inr (next_ref s, s') \<and> THIS_FORM s' = Some (next_ref s)
        \<and> objs s' (next_ref s) = obj\<lparr>FORM_NAME := Some name\<rparr>
        \<and> next_ref s' = Suc (next_ref s)
        \<and> (\<forall>q. q \<noteq> next_ref s \<longrightarrow> objs s' q = objs s q)
        \<and> Forms s' = Forms s"
  using assms by (simp add: enter_form_def resolve_form_def new_form_def visit_def)

text \<open>
  A call of the class that raises builds nothing. A \<open>TypeError\<close> is caught by the
  handler of the loop, and the iteration then ends with \<open>AttributeError\<close>; any other
  exception leaves the loop as it is.
\<close>

lemma enter_form_class_raises:
  assumes "NEXT_ACTIVE_FORM s = Some name" and "Forms s name = Some (FormClass c a k)"
    and "call_form_class c a k = Inl e"
  shows "enter_form s =
     (if e = TypeError
      then Inl (AttributeError,
                s\<lparr>LAST_NEXT_ACTIVE_FORM := Some (FormClass c a k),
                  LAST_ACTIVE_FORM_NAME := Some name, THIS_FORM := None\<rparr>)
      else Inl (e, s\<lparr>LAST_NEXT_ACTIVE_FORM := Some (FormClass c a k),
                      LAST_ACTIVE_FORM_NAME := Some name\<rparr>))"
  using assms by (simp add: enter_form_def resolve_form_def new_form_def)

lemma enter_form_instance:
  assumes "NEXT_ACTIVE_FORM s = Some name" and "Forms s name = Some (FormInstance r)"
  shows "\<exists>s'. enter_form s = Inr (r, s') \<and> THIS_FORM s' = Some r
        \<and> objs s' r = (objs s r)\<lparr>FORM_NAME := Some name\<rparr>
        \<and> next_ref s' = next_ref s
        \<and> (\<forall>q. q \<noteq> r \<longrightarrow> objs s' q = objs s q)
        \<and> Forms s' = Forms s"
  using assms by (simp add: enter_form_def resolve_form_def visit_def)

lemma loop_body_next_ref:
  assumes "enter_form s = Inr (r, s4)" and "loop_body bh s = Inr s1"
  shows "next_ref s4 \<le> next_ref s1"
proof -
  from assms obtain s5 where s5: "run_form bh r s4 = Inr s5" "s1 = on_in_main_loop s5"
    by (cases "run_form bh r s4") (auto simp: loop_body_def)
  with run_form_next_ref [of s4 bh r] show ?thesis
    by (simp add: on_in_main_loop_def)
qed

text \<open>
  C3, as amended (the call of the class must return): when \<open>NEXT_ACTIVE_FORM\<close> names a
  class entry whose call \<open>form_class(parent_app=self, *args, **keywords)\<close> returns an
  object, the iteration runs a new object: its address was never handed out, so it is the
  address of no registered object when every registered object exists; its state is what
  the class built (with \<open>FORM_NAME\<close> set); no older object changes. After that iteration,
  the next resolution of such a class entry gives a greater address, builds its object
  anew from the class, and leaves the object of the first resolution alone. When
  \<open>NEXT_ACTIVE_FORM\<close> names a registered object, the iteration runs that very object, in
  the state it was left in (with \<open>FORM_NAME\<close> set), and builds nothing. The registry is
  the same afterwards in all cases.
\<close>

theorem enter_form_fresh_or_stored:
  "(NEXT_ACTIVE_FORM s = Some name \<and> Forms s name = Some (FormClass c a k)
      \<and> call_form_class c a k = Inr obj \<longrightarrow>
     (\<exists>s'. enter_form s = Inr (next_ref s, s') \<and> THIS_FORM s' = Some (next_ref s)
        \<and> objs s' (next_ref s) = obj\<lparr>FORM_NAME := Some name\<rparr>
        \<and> next_ref s' = Suc (next_ref s)
        \<and> (\<forall>q. q \<noteq> next_ref s \<longrightarrow> objs s' q = objs s q)
        \<and> Forms s' = Forms s
        \<and> (registry_ok s \<longrightarrow>
             registry_ok s'
             \<and> (\<forall>n q. Forms s n = Some (FormInstance q) \<longrightarrow> q \<noteq> next_ref s))))
   \<and> (NEXT_ACTIVE_FORM s = Some name \<and> Forms s name = Some (FormClass c a k)
        \<and> call_form_class c a k = Inr obj
        \<and> loop_body bh s = Inr s1
        \<and> NEXT_ACTIVE_FORM s1 = Some name' \<and> Forms s1 name' = Some (FormClass c' a' k')
        \<and> call_form_class c' a' k' = Inr obj' \<longrightarrow>
     (\<exists>t. enter_form s1 = Inr (next_ref s1, t) \<and> THIS_FORM t = Some (next_ref s1)
        \<and> next_ref s < next_ref s1
        \<and> objs t (next_ref s1) = obj'\<lparr>FORM_NAME := Some name'\<rparr>
        \<and> objs t (next_ref s) = objs s1 (next_ref s)
        \<and> (registry_ok s1 \<longrightarrow>
             (\<forall>n q. Forms s1 n = Some (FormInstance q) \<longrightarrow> q \<noteq> next_ref s1))))
   \<and> (NEXT_ACTIVE_FORM s = Some name \<and> Forms s name = Some (FormInstance r) \<longrightarrow>
     (\<exists>s'. enter_form s = Inr (r, s') \<and> THIS_FORM s' = Some r
        \<and> objs s' r = (objs s r)\<lparr>FORM_NAME := Some name\<rparr>
        \<and> next_ref s' = next_ref s
        \<and> (\<forall>q. q \<noteq> r \<longrightarrow> objs s' q = objs s q)
        \<and> Forms s' = Forms s))"
proof (intro conjI impI)
  assume a: "NEXT_ACTIVE_FORM s = Some name \<and> Forms s name = Some (FormClass c a k)
      \<and> call_form_class c a k = Inr obj"
  then obtain s' where s': "enter_form s = Inr (next_ref s, s')" "THIS_FORM s' = Some (next_ref s)"
    "objs s' (next_ref s) = obj\<lparr>FORM_NAME := Some name\<rparr>"
    "next_ref s' = Suc (next_ref s)"
    "\<forall>q. q \<noteq> next_ref s \<longrightarrow> objs s' q = objs s q"
    "Forms s' = Forms s"
    using enter_form_class [of s name c a k obj] by blast
  have "registry_ok s \<longrightarrow>
             registry_ok s'
             \<and> (\<forall>n q. Forms s n = Some (FormInstance q) \<longrightarrow> q \<noteq> next_ref s)"
    using s'(4,6) by (fastforce simp: registry_ok_def)
  with s' show "\<exists>s'. enter_form s = Inr (next_ref s, s') \<and> THIS_FORM s' = Some (next_ref s)
        \<and> objs s' (next_ref s) = obj\<lparr>FORM_NAME := Some name\<rparr>
        \<and> next_ref s' = Suc (next_ref s)
        \<and> (\<forall>q. q \<noteq> next_ref s \<longrightarrow> objs s' q = objs s q)
        \<and> Forms s' = Forms s
        \<and> (registry_ok s \<longrightarrow>
             registry_ok s'
             \<and> (\<forall>n q. Forms s n = Some (FormInstance q) \<longrightarrow> q \<noteq> next_ref s))"
    by blast
next
  assume "NEXT_ACTIVE_FORM s = Some name \<and> Forms s name = Some (FormInstance r)"
  then show "\<exists>s'. enter_form s = Inr (r, s') \<and> THIS_FORM s' = Some r
        \<and> objs s' r = (objs s r)\<lparr>FORM_NAME := Some name\<rparr>
        \<and> next_ref s' = next_ref s
        \<and> (\<forall>q. q \<noteq> r \<longrightarrow> objs s' q = objs s q)
        \<and> Forms s' = Forms s"
    using enter_form_instance by blast
next
  assume a: "NEXT_ACTIVE_FORM s = Some name \<and> Forms s name = Some (FormClass c a k)
        \<and> call_form_class c a k = Inr obj
        \<and> loop_body bh s = Inr s1
        \<and> NEXT_ACTIVE_FORM s1 = Some name' \<and> Forms s1 name' = Some (FormClass c' a' k')
        \<and> call_form_class c' a' k' = Inr obj'"
  then obtain s4 where s4: "enter_form s = Inr (next_ref s, s4)" "next_ref s4 = Suc (next_ref s)"
    using enter_form_class [of s name c a k obj] by blast
  from loop_body_next_ref [OF s4(1), of bh s1] a s4(2) have less: "next_ref s < next_ref s1"
    by simp
  from a obtain t where t: "enter_form s1 = Inr (next_ref s1, t)"
    "THIS_FORM t = Some (next_ref s1)"
    "objs t (next_ref s1) = obj'\<lparr>FORM_NAME := Some name'\<rparr>"
    "\<forall>q. q \<noteq> next_ref s1 \<longrightarrow> objs t q = objs s1 q"
    using enter_form_class [of s1 name' c' a' k' obj'] by blast
  from t(4) less have same: "objs t (next_ref s) = objs s1 (next_ref s)"
    by simp
  have "registry_ok s1 \<longrightarrow>
             (\<forall>n q. Forms s1 n = Some (FormInstance q) \<longrightarrow> q \<noteq> next_ref s1)"
    by (fastforce simp: registry_ok_def)
  with t(1,2,3) less same
  show "\<exists>t. enter_form s1 = Inr (next_ref s1, t) \<and> THIS_FORM t = Some (next_ref s1)
        \<and> next_ref s < next_ref s1
        \<and> objs t (next_ref s1) = obj'\<lparr>FORM_NAME := Some name'\<rparr>
        \<and> objs t (next_ref s) = objs s1 (next_ref s)
        \<and> (registry_ok s1 \<longrightarrow>
             (\<forall>n q. Forms s1 n = Some (FormInstance q) \<longrightarrow> q \<noteq> next_ref s1))"
    by blast
qed

text \<open>
  In the sample application every registered object exists, \<open>THIRD\<close> is a class and
  \<open>MAIN\<close> an object at address 0, and the addresses 0 and 1 are in use. Resolving
  \<open>THIRD\<close> runs a new object at address 2; when that screen asks for \<open>THIRD\<close> again, the
  next resolution runs another new object at address 3 and leaves the one at address 2
  alone. Resolving \<open>MAIN\<close> runs the object 0.
\<close>

lemma sample_third_again:
  "\<exists>s1. loop_body (request_env (\<lambda>i. [Some ''THIRD'']) 0)
            (set_next_form (Some ''THIRD'') sample_app) = Inr s1
      \<and> NEXT_ACTIVE_FORM s1 = Some ''THIRD''
      \<and> Forms s1 ''THIRD'' = Some (FormClass MainForm [] [(''name'', ''Screen 3'')])
      \<and> next_ref s1 = 3 \<and> registry_ok s1"
  by (simp add: loop_body_def enter_form_def resolve_form_def new_form_def call_form_class_def
      visit_def run_form_def request_env_def set_next_form_def on_in_main_loop_def
      sample_app_simps plain_form_def MainForm_def registry_ok_def sample_app_def
      add_form_class_def add_form_def register_form_def added_def init_app_def)

theorem enter_form_fresh_or_stored_witness:
  "registry_ok sample_app
   \<and> (\<exists>s'. enter_form (set_next_form (Some ''THIRD'') sample_app) = Inr (2, s')
       \<and> objs s' 2 = plain_form\<lparr>FORM_NAME := Some ''THIRD''\<rparr>
       \<and> objs s' 0 = objs sample_app 0 \<and> next_ref s' = 3 \<and> registry_ok s')
   \<and> (\<exists>s1 t. loop_body (request_env (\<lambda>i. [Some ''THIRD'']) 0)
                 (set_next_form (Some ''THIRD'') sample_app) = Inr s1
       \<and> enter_form s1 = Inr (3, t)
       \<and> objs t 3 = plain_form\<lparr>FORM_NAME := Some ''THIRD''\<rparr>
       \<and> objs t 2 = objs s1 2)
   \<and> (\<exists>s'. enter_form sample_app = Inr (0, s')
       \<and> objs s' 0 = (objs sample_app 0)\<lparr>FORM_NAME := Some ''MAIN''\<rparr> \<and> next_ref s' = 2)"
proof -
  let ?s = "set_next_form (Some ''THIRD'') sample_app"
  let ?bh = "request_env (\<lambda>i. [Some ''THIRD'']) 0"
  have ok: "registry_ok sample_app" "registry_ok ?s"
    by (simp_all add: registry_ok_def set_next_form_def sample_app_def add_form_class_def
        add_form_def new_form_def register_form_def added_def init_app_def MainForm_def
        call_form_class_def)
  have third: "NEXT_ACTIVE_FORM ?s = Some ''THIRD''
      \<and> Forms ?s ''THIRD'' = Some (FormClass MainForm [] [(''name'', ''Screen 3'')])
      \<and> call_form_class MainForm [] [(''name'', ''Screen 3'')] = Inr plain_form"
    by (simp add: set_next_form_def sample_app_simps call_form_class_def MainForm_def)
  have main: "NEXT_ACTIVE_FORM sample_app = Some ''MAIN''
      \<and> Forms sample_app ''MAIN'' = Some (FormInstance 0)"
    by (simp add: sample_app_simps)
  have n: "next_ref ?s = 2" "objs ?s = objs sample_app"
    by (simp_all add: set_next_form_def sample_app_simps)
  from enter_form_fresh_or_stored
    [where s = ?s and name = "''THIRD''" and c = MainForm and a = "[]"
       and k = "[(''name'', ''Screen 3'')]" and obj = plain_form,
     THEN conjunct1, THEN mp, OF third]
  obtain s' where
    "enter_form ?s = Inr (next_ref ?s, s')"
    "objs s' (next_ref ?s) = plain_form\<lparr>FORM_NAME := Some ''THIRD''\<rparr>"
    "next_ref s' = Suc (next_ref ?s)"
    "\<forall>q. q \<noteq> next_ref ?s \<longrightarrow> objs s' q = objs ?s q"
    "registry_ok ?s \<longrightarrow> registry_ok s'"
    by blast
  with ok(2) have "enter_form ?s = Inr (2, s')
       \<and> objs s' 2 = plain_form\<lparr>FORM_NAME := Some ''THIRD''\<rparr>
       \<and> objs s' 0 = objs sample_app 0 \<and> next_ref s' = 3 \<and> registry_ok s'"
    by (simp add: n)
  then have first: "\<exists>s'. enter_form ?s = Inr (2, s')
       \<and> objs s' 2 = plain_form\<lparr>FORM_NAME := Some ''THIRD''\<rparr>
       \<and> objs s' 0 = objs sample_app 0 \<and> next_ref s' = 3 \<and> registry_ok s'"
    by blast
  from sample_third_again obtain s1 where
    s1: "loop_body ?bh ?s = Inr s1" "NEXT_ACTIVE_FORM s1 = Some ''THIRD''"
      "Forms s1 ''THIRD'' = Some (FormClass MainForm [] [(''name'', ''Screen 3'')])"
      "next_ref s1 = 3"
    by blast
  from third s1(1,2,3) have twice:
    "NEXT_ACTIVE_FORM ?s = Some ''THIRD''
      \<and> Forms ?s ''THIRD'' = Some (FormClass MainForm [] [(''name'', ''Screen 3'')])
      \<and> call_form_class MainForm [] [(''name'', ''Screen 3'')] = Inr plain_form
      \<and> loop_body ?bh ?s = Inr s1
      \<and> NEXT_ACTIVE_FORM s1 = Some ''THIRD''
      \<and> Forms s1 ''THIRD'' = Some (FormClass MainForm [] [(''name'', ''Screen 3'')])
      \<and> call_form_class MainForm [] [(''name'', ''Screen 3'')] = Inr plain_form"
    by simp
  from enter_form_fresh_or_stored
    [where s = ?s and name = "''THIRD''" and c = MainForm and a = "[]"
       and k = "[(''name'', ''Screen 3'')]" and obj = plain_form and bh = ?bh and ?s1.0 = s1
       and name' = "''THIRD''" and c' = MainForm and a' = "[]"
       and k' = "[(''name'', ''Screen 3'')]" and obj' = plain_form,
     THEN conjunct2, THEN conjunct1, THEN mp, OF twice]
  obtain t where
    "enter_form s1 = Inr (next_ref s1, t)"
    "objs t (next_ref s1) = plain_form\<lparr>FORM_NAME := Some ''THIRD''\<rparr>"
    "objs t (next_ref ?s) = objs s1 (next_ref ?s)"
    by blast
  with s1(1,4) have "loop_body ?bh ?s = Inr s1
       \<and> enter_form s1 = Inr (3, t)
       \<and> objs t 3 = plain_form\<lparr>FORM_NAME := Some ''THIRD''\<rparr>
       \<and> objs t 2 = objs s1 2"
    by (simp add: n)
  then have second: "\<exists>s1 t. loop_body ?bh ?s = Inr s1
       \<and> enter_form s1 = Inr (3, t)
       \<and> objs t 3 = plain_form\<lparr>FORM_NAME := Some ''THIRD''\<rparr>
       \<and> objs t 2 = objs s1 2"
    by blast
  from enter_form_fresh_or_stored
    [where s = sample_app and name = "''MAIN''" and r = 0,
     THEN conjunct2, THEN conjunct2, THEN mp, OF main]
  obtain u where
    "enter_form sample_app = Inr (0, u)"
    "objs u 0 = (objs sample_app 0)\<lparr>FORM_NAME := Some ''MAIN''\<rparr>"
    "next_ref u = next_ref sample_app"
    by blast
  then have "\<exists>s'. enter_form sample_app = Inr (0, s')
       \<and> objs s' 0 = (objs sample_app 0)\<lparr>FORM_NAME := Some ''MAIN''\<rparr> \<and> next_ref s' = 2"
    by (simp add: sample_app_simps)
  with ok(1) first second show ?thesis by blast
qed

text \<open>
  C3 as it is stated, for every class entry, fails where the call of the class
  raises. \<open>BROKEN\<close> is a class entry whose keywords bind \<open>parent_app\<close>: the call raises
  \<open>TypeError\<close>, the iteration ends with \<open>AttributeError\<close>, and no object is built (the
  store and the next address are those of before).
\<close>

theorem class_entry_call_raises:
  "Forms broken_app ''BROKEN'' = Some (FormClass MainForm [] [(''parent_app'', ''x'')])
   \<and> NEXT_ACTIVE_FORM broken_app = Some ''BROKEN''
   \<and> enter_form broken_app =
       Inl (AttributeError,
            broken_app\<lparr>LAST_NEXT_ACTIVE_FORM :=
                           Some (FormClass MainForm [] [(''parent_app'', ''x'')]),
                        LAST_ACTIVE_FORM_NAME := Some ''BROKEN'', THIS_FORM := None\<rparr>)
   \<and> loop_body (request_env sample_requests 0) broken_app =
       Inl (AttributeError,
            broken_app\<lparr>LAST_NEXT_ACTIVE_FORM :=
                           Some (FormClass MainForm [] [(''parent_app'', ''x'')]),
                        LAST_ACTIVE_FORM_NAME := Some ''BROKEN'', THIS_FORM := None\<rparr>)"
proof -
  have b: "NEXT_ACTIVE_FORM broken_app = Some ''BROKEN''"
    "Forms broken_app ''BROKEN'' = Some (FormClass MainForm [] [(''parent_app'', ''x'')])"
    "call_form_class MainForm [] [(''parent_app'', ''x'')] = Inl TypeError"
    by (simp_all add: broken_app_def set_next_form_def add_form_class_def call_form_class_def)
  from enter_form_class_raises [OF b] b show ?thesis
    by (simp add: loop_body_def)
qed

section \<open>Removing a form\<close>

lemma remove_form_instance_then_unknown:
  assumes "Forms s form_id = Some (FormInstance r)" and "parentApp (objs s r)"
  shows "\<exists>s'. remove_form form_id s = Inr s' \<and> Forms s' form_id = None
     \<and> enter_form (set_next_form (Some form_id) s')
         = Inl (KeyError, set_next_form (Some form_id) s')"
  using assms by (simp add: remove_form_def enter_form_def set_next_form_def)

lemma enter_form_unknown:
  assumes "NEXT_ACTIVE_FORM s = Some form_id" and "Forms s form_id = None"
  shows "enter_form s = Inl (KeyError, s)" and "loop_body bh s = Inl (KeyError, s)"
  using assms by (simp_all add: enter_form_def loop_body_def)

text \<open>
  C7, for an identifier registered with \<open>add_form_class\<close>: \<open>remove_form\<close> raises
  \<open>AttributeError\<close> and leaves the registry as it was, so the identifier is still bound
  and still resolves to a new object whenever the call of the class returns one.
  (For a registered object the binding is removed and resolution then raises
  \<open>KeyError\<close>, as it does for an identifier that was never registered: the two lemmas
  above.)
\<close>

theorem remove_form_of_class_entry_raises:
  "remove_form form_id (add_form_class form_id c a k s)
     = Inl (AttributeError, add_form_class form_id c a k s)
   \<and> Forms (add_form_class form_id c a k s) form_id = Some (FormClass c a k)
   \<and> (\<forall>obj. call_form_class c a k = Inr obj \<longrightarrow>
        (\<exists>r s'. enter_form (set_next_form (Some form_id) (add_form_class form_id c a k s))
               = Inr (r, s')))"
  by (simp add: remove_form_def add_form_class_def enter_form_def resolve_form_def new_form_def
      set_next_form_def)

text \<open>
  In the sample application with a class registered as \<open>X\<close>: \<open>remove_form\<close> raises and
  \<open>X\<close> still resolves.
\<close>

theorem remove_form_of_class_entry_raises_witness:
  "remove_form ''X'' (add_form_class ''X'' MainForm [] [] sample_app)
     = Inl (AttributeError, add_form_class ''X'' MainForm [] [] sample_app)
   \<and> Forms (add_form_class ''X'' MainForm [] [] sample_app) ''X''
       = Some (FormClass MainForm [] [])
   \<and> (\<exists>r s'. enter_form (set_next_form (Some ''X'')
                  (add_form_class ''X'' MainForm [] [] sample_app)) = Inr (r, s'))"
proof -
  have "call_form_class MainForm [] [] = Inr plain_form"
    by (simp add: call_form_class_def MainForm_def)
  with remove_form_of_class_entry_raises [of "''X''" MainForm "[]" "[]" sample_app]
  show ?thesis by blast
qed

section \<open>Switching at once\<close>

lemma focused_widget_Inr:
  "focused_widget f = Inr i \<Longrightarrow> \<exists>ws. widgets f = Some ws \<and> i < length ws"
  by (auto simp: focused_widget_def py_index_def split: option.splits if_splits)

lemma focused_widget_same_length:
  "widgets f = Some ws \<Longrightarrow> length ws' = length ws \<Longrightarrow>
     focused_widget (f\<lparr>widgets := Some ws'\<rparr>) = focused_widget f"
  by (simp add: focused_widget_def py_index_def split: option.splits)

lemma widget_entry_update:
  "entry_widget w = x \<Longrightarrow> w\<lparr>wg_editing := b, entry_widget := x\<rparr> = w\<lparr>wg_editing := b\<rparr>"
  by (cases w) simp

lemma clear_focus:
  "clear_entry_widget_editing (clear_widget_editing f) =
     (case focused_widget f of
        Inl e \<Rightarrow> f
      | Inr i \<Rightarrow>
          f\<lparr>widgets := map_option
            (\<lambda>ws. ws[i := (ws ! i)\<lparr>wg_editing := False,
                       entry_widget := map_option (\<lambda>b. False) (entry_widget (ws ! i))\<rparr>])
            (widgets f)\<rparr>)"
proof (cases "focused_widget f")
  case (Inl e)
  then show ?thesis
    by (simp add: clear_widget_editing_def clear_entry_widget_editing_def)
next
  case (Inr i)
  then obtain ws where ws: "widgets f = Some ws" "i < length ws"
    using focused_widget_Inr by blast
  let ?ws1 = "ws[i := (ws ! i)\<lparr>wg_editing := False\<rparr>]"
  have step1: "clear_widget_editing f = f\<lparr>widgets := Some ?ws1\<rparr>"
    using Inr ws by (simp add: clear_widget_editing_def)
  have foc: "focused_widget (f\<lparr>widgets := Some ?ws1\<rparr>) = Inr i"
    using focused_widget_same_length [OF ws(1), of ?ws1] Inr by simp
  show ?thesis
    using Inr ws foc
    by (cases "entry_widget (ws ! i)")
       (simp_all add: step1 clear_entry_widget_editing_def widget_entry_update)
qed

text \<open>
  C5: \<open>switch_form\<close> while a form is current. It returns without an exception;
  \<open>NEXT_ACTIVE_FORM\<close> is the identifier given; the \<open>editing\<close> flag of the form is off.
  If \<open>_widgets__[editw]\<close> exists, the \<open>editing\<close> flag of that widget is off, and so is the
  flag of its \<open>entry_widget\<close> when the widget has one; if it does not exist (no
  \<open>_widgets__\<close>, no \<open>editw\<close>, index out of range), the widgets are unchanged. Nothing
  else changes: not the focus, the other objects, the history or the registry.
\<close>

theorem switch_form_clears_editing:
  assumes "THIS_FORM s = Some r"
  shows "\<exists>s'. switch_form form_id s = Inr s'
     \<and> NEXT_ACTIVE_FORM s' = form_id
     \<and> \<not> editing (objs s' r)
     \<and> (\<forall>i. focused_widget (objs s r) = Inr i \<longrightarrow>
           (\<exists>ws. widgets (objs s r) = Some ws \<and> i < length ws
              \<and> widgets (objs s' r) =
                  Some (ws[i := (ws ! i)\<lparr>wg_editing := False,
                      entry_widget := map_option (\<lambda>b. False) (entry_widget (ws ! i))\<rparr>])))
     \<and> (\<forall>e. focused_widget (objs s r) = Inl e \<longrightarrow> widgets (objs s' r) = widgets (objs s r))
     \<and> editw (objs s' r) = editw (objs s r)
     \<and> (\<forall>q. q \<noteq> r \<longrightarrow> objs s' q = objs s q)
     \<and> FORM_VISIT_LIST s' = FORM_VISIT_LIST s \<and> Forms s' = Forms s \<and> THIS_FORM s' = THIS_FORM s"
proof -
  let ?f = "(objs s r)\<lparr>editing := False\<rparr>"
  have foc: "focused_widget ?f = focused_widget (objs s r)"
    by (simp add: focused_widget_def split: option.splits)
  have eq: "switch_form form_id s =
      Inr (s\<lparr>NEXT_ACTIVE_FORM := form_id,
              objs := (objs s)(r := clear_entry_widget_editing (clear_widget_editing ?f))\<rparr>)"
    using assms
    by (simp add: switch_form_def switch_form_now_def set_editing_false_def set_next_form_def)
  show ?thesis
  proof (cases "focused_widget (objs s r)")
    case (Inl e)
    with foc show ?thesis by (simp add: eq clear_focus)
  next
    case (Inr i)
    then obtain ws where ws: "widgets (objs s r) = Some ws" "i < length ws"
      using focused_widget_Inr by blast
    with Inr foc show ?thesis by (simp add: eq clear_focus)
  qed
qed

text \<open>
  While \<open>SECOND\<close> is current with the focus on its title widget, \<open>switch_form\<close> turns off
  the three flags. With \<open>editw\<close> out of range it turns off the flag of the form only and
  does not raise.
\<close>

theorem switch_form_clears_editing_witness:
  "(\<exists>s'. switch_form (Some ''THIRD'') on_second = Inr s'
      \<and> NEXT_ACTIVE_FORM s' = Some ''THIRD''
      \<and> \<not> editing (objs s' 1)
      \<and> widgets (objs s' 1) =
           Some [\<lparr>wg_editing = True, entry_widget = None\<rparr>,
                 \<lparr>wg_editing = False, entry_widget = Some False\<rparr>])
   \<and> (\<exists>s'. switch_form None
              (on_second\<lparr>objs := (objs on_second)(1 := (objs on_second 1)\<lparr>editw := Some 2\<rparr>)\<rparr>)
            = Inr s'
      \<and> NEXT_ACTIVE_FORM s' = None
      \<and> \<not> editing (objs s' 1)
      \<and> widgets (objs s' 1) =
           Some [\<lparr>wg_editing = True, entry_widget = None\<rparr>,
                 \<lparr>wg_editing = True, entry_widget = Some True\<rparr>])"
proof -
  let ?t = "on_second\<lparr>objs := (objs on_second)(1 := (objs on_second 1)\<lparr>editw := Some 2\<rparr>)\<rparr>"
  have this_form: "THIS_FORM on_second = Some 1" "THIS_FORM ?t = Some 1"
    by (simp_all add: on_second_def)
  have second: "objs sample_app (Suc 0) = plain_form\<lparr>parentApp := True\<rparr>"
    using sample_app_simps(10) by simp
  have obj: "widgets (objs on_second (Suc 0)) =
        Some [\<lparr>wg_editing = True, entry_widget = None\<rparr>,
              \<lparr>wg_editing = True, entry_widget = Some True\<rparr>]"
      "editw (objs on_second (Suc 0)) = Some 1"
    by (simp_all add: on_second_def second plain_form_def)
  have focus: "focused_widget (objs on_second 1) = Inr 1"
      "focused_widget (objs ?t 1) = Inl IndexError"
    by (simp_all add: focused_widget_def py_index_def obj)
  from switch_form_clears_editing [OF this_form(1), of "Some ''THIRD''"] focus(1) obj
  have first: "\<exists>s'. switch_form (Some ''THIRD'') on_second = Inr s'
      \<and> NEXT_ACTIVE_FORM s' = Some ''THIRD''
      \<and> \<not> editing (objs s' 1)
      \<and> widgets (objs s' 1) =
           Some [\<lparr>wg_editing = True, entry_widget = None\<rparr>,
                 \<lparr>wg_editing = False, entry_widget = Some False\<rparr>]"
    by auto
  from switch_form_clears_editing [OF this_form(2), of None] focus(2) obj
  have "\<exists>s'. switch_form None ?t = Inr s'
      \<and> NEXT_ACTIVE_FORM s' = None
      \<and> \<not> editing (objs s' 1)
      \<and> widgets (objs s' 1) =
           Some [\<lparr>wg_editing = True, entry_widget = None\<rparr>,
                 \<lparr>wg_editing = True, entry_widget = Some True\<rparr>]"
    by auto
  with first show ?thesis by blast
qed

section \<open>The value of the single-selection list\<close>

text \<open>
  C8: when the widget is not hidden, \<open>update\<close> passes to the drawing of the rows (the
  \<open>update\<close> of the base class) a widget whose \<open>value\<close> is a list: the list itself when the
  value had an \<open>append\<close> method, the empty list for \<open>None\<close>, and otherwise the list of
  one element holding the value. A tuple has no \<open>append\<close> and is wrapped like a scalar.
\<close>

theorem SelectOne_update_normalizes_value:
  "\<not> hidden w \<Longrightarrow>
   SelectOne_update clear_widget super_update clear w =
     (None, super_update clear (w\<lparr>sel_value :=
        (case sel_value w of
           PyList xs \<Rightarrow> PyList xs
         | PyNone \<Rightarrow> PyList []
         | v \<Rightarrow> PyList [v])\<rparr>))"
  by (cases w; cases "sel_value w") (simp_all add: SelectOne_update_def)

theorem SelectOne_update_normalizes_value_witness:
  "SelectOne_update (\<lambda>w. w) (\<lambda>c w. w) True
     \<lparr>hidden = False, sel_value = PyInt 3, sel_values = [PyStr ''a'', PyStr ''b''],
      cursor_line = 0\<rparr>
   = (None, \<lparr>hidden = False, sel_value = PyList [PyInt 3],
             sel_values = [PyStr ''a'', PyStr ''b''], cursor_line = 0\<rparr>)
   \<and> SelectOne_update (\<lambda>w. w) (\<lambda>c w. w) True
     \<lparr>hidden = False, sel_value = PyNone, sel_values = [PyStr ''a'', PyStr ''b''],
      cursor_line = 0\<rparr>
   = (None, \<lparr>hidden = False, sel_value = PyList [],
             sel_values = [PyStr ''a'', PyStr ''b''], cursor_line = 0\<rparr>)"
  using SelectOne_update_normalizes_value
      [of "\<lparr>hidden = False, sel_value = PyInt 3, sel_values = [PyStr ''a'', PyStr ''b''],
            cursor_line = 0\<rparr>" "\<lambda>w. w" "\<lambda>c w. w" True]
    SelectOne_update_normalizes_value
      [of "\<lparr>hidden = False, sel_value = PyNone, sel_values = [PyStr ''a'', PyStr ''b''],
            cursor_line = 0\<rparr>" "\<lambda>w. w" "\<lambda>c w. w" True]
  by simp

section \<open>Leaving the loop\<close>

text \<open>
  C9: the first test of the loop lets the loop end exactly when \<open>NEXT_ACTIVE_FORM\<close> is
  \<open>None\<close> or the empty string. With either value the loop ends at once, whatever the fuel,
  and \<open>main\<close> then runs \<open>on_clean_exit\<close>: between \<open>on_start\<close> and \<open>on_clean_exit\<close> no
  screen runs, and the history is unchanged.
\<close>

theorem empty_string_stops_loop:
  "((\<exists>s'. main_loop (Suc 0) env i s = Some (Inr s'))
      = (NEXT_ACTIVE_FORM s = None \<or> NEXT_ACTIVE_FORM s = Some ''''))
   \<and> main_loop (Suc fuel) env i (set_next_form (Some '''') s)
       = Some (Inr (set_next_form (Some '''') s))
   \<and> main_loop (Suc fuel) env i (set_next_form None s) = Some (Inr (set_next_form None s))
   \<and> (\<exists>s'. main (Suc fuel) env (set_next_form (Some '''') s) = Some (Inr s')
         \<and> trace s' = trace s @ [EvOnStart, EvOnCleanExit]
         \<and> FORM_VISIT_LIST s' = FORM_VISIT_LIST s)
   \<and> (\<exists>s'. main (Suc fuel) env (set_next_form None s) = Some (Inr s')
         \<and> trace s' = trace s @ [EvOnStart, EvOnCleanExit]
         \<and> FORM_VISIT_LIST s' = FORM_VISIT_LIST s)"
proof (intro conjI)
  show "(\<exists>s'. main_loop (Suc 0) env i s = Some (Inr s'))
      = (NEXT_ACTIVE_FORM s = None \<or> NEXT_ACTIVE_FORM s = Some '''')"
    by (auto simp: loop_condition_def split: sum.splits)
  show "main_loop (Suc fuel) env i (set_next_form (Some '''') s)
       = Some (Inr (set_next_form (Some '''') s))"
    by (simp add: loop_condition_def set_next_form_def)
  show "main_loop (Suc fuel) env i (set_next_form None s) = Some (Inr (set_next_form None s))"
    by (simp add: loop_condition_def set_next_form_def)
  show "\<exists>s'. main (Suc fuel) env (set_next_form (Some '''') s) = Some (Inr s')
         \<and> trace s' = trace s @ [EvOnStart, EvOnCleanExit]
         \<and> FORM_VISIT_LIST s' = FORM_VISIT_LIST s"
    by (simp add: main_def loop_condition_def set_next_form_def on_start_def on_clean_exit_def)
  show "\<exists>s'. main (Suc fuel) env (set_next_form None s) = Some (Inr s')
         \<and> trace s' = trace s @ [EvOnStart, EvOnCleanExit]
         \<and> FORM_VISIT_LIST s' = FORM_VISIT_LIST s"
    by (simp add: main_def loop_condition_def set_next_form_def on_start_def on_clean_exit_def)
qed

text \<open>
  The sample application with \<open>NEXT_ACTIVE_FORM\<close> set to the empty string: \<open>main\<close> ends
  after \<open>on_start\<close> and \<open>on_clean_exit\<close>, as it does for \<open>None\<close>.
\<close>

theorem empty_string_stops_loop_witness:
  "(\<exists>s'. main 1 (request_env sample_requests) (set_next_form (Some '''') sample_app)
            = Some (Inr s')
      \<and> trace s' = [EvOnStart, EvOnCleanExit] \<and> FORM_VISIT_LIST s' = [])
   \<and> (\<exists>s'. main 1 (request_env sample_requests) (set_next_form None sample_app)
            = Some (Inr s')
      \<and> trace s' = [EvOnStart, EvOnCleanExit] \<and> FORM_VISIT_LIST s' = [])"
  using empty_string_stops_loop [of "request_env sample_requests" 0 sample_app 0]
  by (simp add: sample_app_simps)

section \<open>The calls made on a screen\<close>

lemma keeps_methods_refl: "keeps_methods s s"
  by (simp add: keeps_methods_def)

lemma keeps_methods_trans: "keeps_methods a b \<Longrightarrow> keeps_methods b c \<Longrightarrow> keeps_methods a c"
  by (auto simp: keeps_methods_def)

lemma keeps_methods_log: "keeps_methods s (log_event ev s)"
  by (simp add: keeps_methods_def)

lemma switch_form_now_methods: "keeps_methods s (state_of (switch_form_now s))"
  by (simp add: keeps_methods_def switch_form_now_def set_editing_false_def clear_focus
      split: option.splits sum.splits)

lemma switch_form_methods: "keeps_methods s (state_of (switch_form x s))"
  by (simp add: keeps_methods_def switch_form_def switch_form_now_def set_editing_false_def
      set_next_form_def clear_focus split: option.splits sum.splits)

lemma set_next_form_previous_methods: "keeps_methods s (state_of (set_next_form_previous b s))"
  by (simp add: keeps_methods_def set_next_form_previous_def set_next_form_def list_pop_def
      Let_def split: option.splits)

lemma switch_form_previous_methods: "keeps_methods s (state_of (switch_form_previous s))"
proof (cases "set_next_form_previous (Some STARTING_FORM) s")
  case (Inl x)
  with set_next_form_previous_methods [of s "Some STARTING_FORM"] show ?thesis
    by (simp add: switch_form_previous_def)
next
  case (Inr t)
  with set_next_form_previous_methods [of s "Some STARTING_FORM"]
  have "keeps_methods s t" by simp
  from keeps_methods_trans [OF this switch_form_now_methods [of t]] Inr show ?thesis
    by (simp add: switch_form_previous_def)
qed

lemma add_form_methods: "keeps_methods s (state_of (exec_call (AddForm x c a k) s))"
  by (simp add: keeps_methods_def add_form_def new_form_def register_form_def
      split: sum.splits)

lemma exec_call_methods: "keeps_methods s (state_of (exec_call c s))"
proof (cases c)
  case (SwitchForm x)
  then show ?thesis by (simp add: switch_form_methods)
next
  case SwitchFormNow
  then show ?thesis by (simp add: switch_form_now_methods)
next
  case SwitchFormPrevious
  then show ?thesis by (simp add: switch_form_previous_methods)
next
  case (SetNextFormPrevious b)
  then show ?thesis by (simp add: set_next_form_previous_methods)
next
  case RemoveLastFormFromHistory
  then show ?thesis
    by (simp add: keeps_methods_def remove_last_form_from_history_def list_pop_def)
next
  case (RemoveForm x)
  then show ?thesis
    by (simp add: keeps_methods_def remove_form_def split: option.splits entry.splits)
next
  case (AddForm x c' a k)
  then show ?thesis
    using add_form_methods [of s x c' a k] by simp
qed (simp_all add: keeps_methods_def set_next_form_def reset_history_def add_form_class_def
    register_form_def)

lemma exec_calls_trace:
  assumes "exec_calls cs s = Inr t"
  shows "trace t = trace s" and "keeps_methods s t"
proof -
  from exec_calls_rel [where R = "\<lambda>a b. trace b = trace a" and s = s and cs = cs] assms
  show "trace t = trace s" by (simp add: exec_call_trace)
  from exec_calls_rel [where R = keeps_methods and s = s and cs = cs,
      OF exec_call_methods keeps_methods_refl keeps_methods_trans] assms
  show "keeps_methods s t" by simp
qed

text \<open>
  The events of one run of a form, with \<open>after_editing\<close> looked up when the code looks it
  up, after the edit cycle.
\<close>

lemma run_form_events:
  assumes "run_form bh r s = Inr t"
  shows "(\<exists>u. keeps_methods s u
            \<and> trace t = trace s @ activation_sequence r (has_activate (objs s r))
                 (has_before_editing (objs s r)) (has_after_editing (objs u r)))
         \<and> keeps_methods s t"
proof (cases "has_activate (objs s r)")
  case True
  with assms have "exec_calls (bh Activate) (log_event (EvActivate r) (log_event (EvResize r) s))
      = Inr t"
    by (simp add: run_form_def)
  from exec_calls_trace [OF this] True
  have "trace t = trace s @ activation_sequence r (has_activate (objs s r))
                 (has_before_editing (objs s r)) (has_after_editing (objs s r))"
    and "keeps_methods s t"
    by (simp_all add: activation_sequence_def keeps_methods_def)
  then show ?thesis using keeps_methods_refl by blast
next
  case False
  let ?first = "if has_before_editing (objs s r)
      then exec_calls (bh BeforeEditing) (log_event (EvBeforeEditing r) s) else Inr s"
  from assms False obtain s1 where s1: "?first = Inr s1"
    by (cases ?first) (simp_all add: run_form_def)
  have t1: "trace s1 = trace s @ (if has_before_editing (objs s r) then [EvBeforeEditing r] else [])"
  proof (cases "has_before_editing (objs s r)")
    case True
    with s1 exec_calls_trace(1) [of "bh BeforeEditing" "log_event (EvBeforeEditing r) s" s1]
    show ?thesis by simp
  next
    case no_before: False
    with s1 show ?thesis by simp
  qed
  have k1: "keeps_methods s s1"
  proof (cases "has_before_editing (objs s r)")
    case True
    with s1 exec_calls_trace(2) [of "bh BeforeEditing" "log_event (EvBeforeEditing r) s" s1]
    show ?thesis by (simp add: keeps_methods_def)
  next
    case no_before: False
    with s1 show ?thesis by (simp add: keeps_methods_refl)
  qed
  from assms False s1 obtain s2 where
    s2: "exec_calls (bh Edit) (log_event (EvEdit r) (log_event (EvResize r) s1)) = Inr s2"
    by (cases "exec_calls (bh Edit) (log_event (EvEdit r) (log_event (EvResize r) s1))")
      (simp_all add: run_form_def)
  from exec_calls_trace [OF s2]
  have t2: "trace s2 = trace s1 @ [EvResize r, EvEdit r]" and k12: "keeps_methods s1 s2"
    by (simp_all add: keeps_methods_def)
  from keeps_methods_trans [OF k1 k12] have k2: "keeps_methods s s2" .
  have final: "(if has_after_editing (objs s2 r)
       then exec_calls (bh AfterEditing) (log_event (EvAfterEditing r) s2) else Inr s2) = Inr t"
    using assms False s1 s2 by (simp add: run_form_def)
  have t3: "trace t = trace s2 @ (if has_after_editing (objs s2 r) then [EvAfterEditing r] else [])"
  proof (cases "has_after_editing (objs s2 r)")
    case True
    with final exec_calls_trace(1) [of "bh AfterEditing" "log_event (EvAfterEditing r) s2" t]
    show ?thesis by simp
  next
    case no_after: False
    with final show ?thesis by simp
  qed
  have k23: "keeps_methods s2 t"
  proof (cases "has_after_editing (objs s2 r)")
    case True
    with final exec_calls_trace(2) [of "bh AfterEditing" "log_event (EvAfterEditing r) s2" t]
    show ?thesis by (simp add: keeps_methods_def)
  next
    case no_after: False
    with final show ?thesis by (simp add: keeps_methods_refl)
  qed
  from t1 t2 t3 False
  have "trace t = trace s @ activation_sequence r (has_activate (objs s r))
                 (has_before_editing (objs s r)) (has_after_editing (objs s2 r))"
    by (simp add: activation_sequence_def)
  with k2 keeps_methods_trans [OF k2 k23] show ?thesis by blast
qed

lemma visit_frame [simp]:
  "trace (visit n s) = trace s"
  "Forms (visit n s) = Forms s"
  "NEXT_ACTIVE_FORM (visit n s) = NEXT_ACTIVE_FORM s"
  "objs (visit n s) = objs s"
  "next_ref (visit n s) = next_ref s"
  by (simp_all add: visit_def)

lemma resolve_form_frame:
  assumes "resolve_form e s = Inr s2"
  shows "trace s2 = trace s" and "Forms s2 = Forms s"
    and "NEXT_ACTIVE_FORM s2 = NEXT_ACTIVE_FORM s"
  using assms
  by (auto simp: resolve_form_def new_form_def split: entry.splits sum.splits if_splits)

lemma enter_form_Inr:
  assumes "enter_form s = Inr (r, s4)"
  obtains name e s2 where "NEXT_ACTIVE_FORM s = Some name" and "Forms s name = Some e"
    and "resolve_form e (s\<lparr>LAST_NEXT_ACTIVE_FORM := Some e,
            LAST_ACTIVE_FORM_NAME := Some name\<rparr>) = Inr s2"
    and "THIS_FORM s2 = Some r"
    and "s4 = visit name (s2\<lparr>objs := (objs s2)(r := (objs s2 r)\<lparr>FORM_NAME := Some name\<rparr>),
            ACTIVE_FORM_NAME := Some name\<rparr>)"
  using assms by (auto simp: enter_form_def split: option.splits sum.splits)

lemma enter_form_frame:
  assumes "enter_form s = Inr (r, s4)"
  shows "trace s4 = trace s" and "Forms s4 = Forms s"
    and "NEXT_ACTIVE_FORM s4 = NEXT_ACTIVE_FORM s"
proof -
  from assms obtain name e s2 where
    res: "resolve_form e (s\<lparr>LAST_NEXT_ACTIVE_FORM := Some e,
            LAST_ACTIVE_FORM_NAME := Some name\<rparr>) = Inr s2"
    and s4: "s4 = visit name (s2\<lparr>objs := (objs s2)(r := (objs s2 r)\<lparr>FORM_NAME := Some name\<rparr>),
            ACTIVE_FORM_NAME := Some name\<rparr>)"
    by (rule enter_form_Inr)
  from resolve_form_frame [OF res] s4
  show "trace s4 = trace s" and "Forms s4 = Forms s"
    and "NEXT_ACTIVE_FORM s4 = NEXT_ACTIVE_FORM s"
    by simp_all
qed

lemma loop_body_events:
  assumes "loop_body bh s = Inr s1"
  shows "\<exists>r s4 u. enter_form s = Inr (r, s4) \<and> keeps_methods s4 u
     \<and> trace s1 = trace s @ activation_sequence r (has_activate (objs s4 r))
          (has_before_editing (objs s4 r)) (has_after_editing (objs u r)) @ [EvOnInMainLoop]"
proof -
  from assms obtain r s4 where e: "enter_form s = Inr (r, s4)"
    by (cases "enter_form s") (auto simp: loop_body_def)
  with assms obtain s5 where s5: "run_form bh r s4 = Inr s5" "s1 = on_in_main_loop s5"
    by (cases "run_form bh r s4") (auto simp: loop_body_def)
  from run_form_events [OF s5(1)] obtain u where
    "keeps_methods s4 u"
    "trace s5 = trace s4 @ activation_sequence r (has_activate (objs s4 r))
       (has_before_editing (objs s4 r)) (has_after_editing (objs u r))"
    by blast
  with e s5(2) enter_form_frame(1) [OF e] show ?thesis
    by (auto simp: on_in_main_loop_def)
qed

lemma main_loop_events:
  "main_loop fuel env i s = Some (Inr s') \<Longrightarrow>
     \<exists>blocks. trace s' = trace s @
        concat (map (\<lambda>(r, a, b, c). activation_sequence r a b c @ [EvOnInMainLoop]) blocks)"
proof (induction fuel arbitrary: i s)
  case 0
  then show ?case by simp
next
  case (Suc fuel)
  show ?case
  proof (cases "loop_condition s")
    case False
    with Suc.prems have "s' = s" by simp
    then have "trace s' = trace s @
        concat (map (\<lambda>(r, a, b, c). activation_sequence r a b c @ [EvOnInMainLoop]) [])"
      by simp
    then show ?thesis by blast
  next
    case True
    with Suc.prems obtain s1 where s1: "loop_body (env i) s = Inr s1"
      "main_loop fuel env (Suc i) s1 = Some (Inr s')"
      by (cases "loop_body (env i) s") auto
    from loop_body_events [OF s1(1)] obtain r a b c where
      first: "trace s1 = trace s @ activation_sequence r a b c @ [EvOnInMainLoop]"
      by blast
    from Suc.IH [OF s1(2)] obtain blocks where
      rest: "trace s' = trace s1 @
        concat (map (\<lambda>(r, a, b, c). activation_sequence r a b c @ [EvOnInMainLoop]) blocks)"
      by blast
    from first rest have "trace s' = trace s @
        concat (map (\<lambda>(r, a, b, c). activation_sequence r a b c @ [EvOnInMainLoop])
          ((r, a, b, c) # blocks))"
      by simp
    then show ?thesis by blast
  qed
qed

text \<open>
  C6: in an iteration that completes, whose form \<open>r\<close> is an existing object, the calls
  are: \<open>resize\<close> and \<open>activate\<close> if the form has \<open>activate\<close>, and then neither
  \<open>before_editing\<close> nor \<open>after_editing\<close>; otherwise \<open>before_editing\<close> if the form has it,
  \<open>resize\<close>, \<open>edit\<close>, and \<open>after_editing\<close> if the form has it, in that order; and then
  \<open>on_in_main_loop\<close>, once. A run of \<open>main\<close> that ends normally is \<open>on_start\<close>, then
  one such block for each iteration, then \<open>on_clean_exit\<close>; a block is never empty and
  \<open>on_in_main_loop\<close> is its last event only, so it is not called before the first screen.
\<close>

theorem loop_body_activation_sequence:
  "(enter_form s = Inr (r, s4) \<and> r < next_ref s4 \<and> loop_body bh s = Inr s1 \<longrightarrow>
      trace s1 = trace s @ activation_sequence r (has_activate (objs s4 r))
          (has_before_editing (objs s4 r)) (has_after_editing (objs s4 r)) @ [EvOnInMainLoop])
   \<and> (main fuel env s = Some (Inr s2) \<longrightarrow>
        (\<exists>blocks. trace s2 = trace s @ [EvOnStart]
            @ concat (map (\<lambda>(r, a, b, c). activation_sequence r a b c @ [EvOnInMainLoop]) blocks)
            @ [EvOnCleanExit]))
   \<and> activation_sequence r a b c \<noteq> []
   \<and> EvOnInMainLoop \<notin> set (activation_sequence r a b c)
   \<and> activation_sequence r True b c = [EvResize r, EvActivate r]
   \<and> activation_sequence r False b c =
        (if b then [EvBeforeEditing r] else []) @ [EvResize r, EvEdit r]
        @ (if c then [EvAfterEditing r] else [])"
proof (intro conjI impI)
  assume a: "enter_form s = Inr (r, s4) \<and> r < next_ref s4 \<and> loop_body bh s = Inr s1"
  from loop_body_events [of bh s s1] a obtain u where
    u: "keeps_methods s4 u"
    "trace s1 = trace s @ activation_sequence r (has_activate (objs s4 r))
          (has_before_editing (objs s4 r)) (has_after_editing (objs u r)) @ [EvOnInMainLoop]"
    by auto
  from u(1) a have "has_after_editing (objs u r) = has_after_editing (objs s4 r)"
    by (simp add: keeps_methods_def)
  with u(2) show "trace s1 = trace s @ activation_sequence r (has_activate (objs s4 r))
          (has_before_editing (objs s4 r)) (has_after_editing (objs s4 r)) @ [EvOnInMainLoop]"
    by simp
next
  assume m: "main fuel env s = Some (Inr s2)"
  then obtain t where t: "main_loop fuel env 0 (on_start s) = Some (Inr t)"
    "s2 = on_clean_exit t"
    by (auto simp: main_def split: option.splits sum.splits)
  from main_loop_events [OF t(1)] obtain blocks where
    "trace t = trace (on_start s) @
        concat (map (\<lambda>(r, a, b, c). activation_sequence r a b c @ [EvOnInMainLoop]) blocks)"
    by blast
  with t(2) have "trace s2 = trace s @ [EvOnStart]
            @ concat (map (\<lambda>(r, a, b, c). activation_sequence r a b c @ [EvOnInMainLoop]) blocks)
            @ [EvOnCleanExit]"
    by (simp add: on_start_def on_clean_exit_def)
  then show "\<exists>blocks. trace s2 = trace s @ [EvOnStart]
            @ concat (map (\<lambda>(r, a, b, c). activation_sequence r a b c @ [EvOnInMainLoop]) blocks)
            @ [EvOnCleanExit]"
    by blast
qed (simp_all add: activation_sequence_def)

text \<open>
  The first iteration of the sample application runs \<open>MAIN\<close>, which has \<open>before_editing\<close>
  and \<open>after_editing\<close> and no \<open>activate\<close>; with an \<open>activate\<close> method on that object,
  only \<open>resize\<close> and \<open>activate\<close> are called. The whole run of the sample application ends
  normally.
\<close>

lemma sample_first_iteration:
  "\<exists>s4 s1. enter_form sample_app = Inr (0, s4) \<and> next_ref s4 = 2
      \<and> \<not> has_activate (objs s4 0) \<and> has_before_editing (objs s4 0)
      \<and> has_after_editing (objs s4 0)
      \<and> loop_body (request_env sample_requests 0) sample_app = Inr s1"
  by (simp add: loop_body_def enter_form_def resolve_form_def visit_def run_form_def
      request_env_def sample_requests_def set_next_form_def on_in_main_loop_def
      sample_app_simps plain_form_def)

lemma sample_first_iteration_activate:
  "\<exists>s4 s1. enter_form (sample_app\<lparr>objs := (objs sample_app)(0 := active_form)\<rparr>) = Inr (0, s4)
      \<and> next_ref s4 = 2 \<and> has_activate (objs s4 0)
      \<and> loop_body (request_env sample_requests 0)
           (sample_app\<lparr>objs := (objs sample_app)(0 := active_form)\<rparr>) = Inr s1"
  by (simp add: loop_body_def enter_form_def resolve_form_def visit_def run_form_def
      request_env_def sample_requests_def set_next_form_def on_in_main_loop_def
      sample_app_simps plain_form_def active_form_def)

lemma sample_main_run:
  "\<exists>s2. main 6 (request_env sample_requests) sample_app = Some (Inr s2)"
  by (simp add: main_def on_start_def on_clean_exit_def eval_nat_numeral loop_condition_def
      loop_body_def enter_form_def resolve_form_def new_form_def call_form_class_def visit_def
      run_form_def request_env_def sample_requests_def set_next_form_def on_in_main_loop_def
      sample_app_simps plain_form_def MainForm_def)

theorem loop_body_activation_sequence_witness:
  "(\<exists>s4 s1. enter_form sample_app = Inr (0, s4) \<and> 0 < next_ref s4
       \<and> loop_body (request_env sample_requests 0) sample_app = Inr s1
       \<and> trace s1 = [EvBeforeEditing 0, EvResize 0, EvEdit 0, EvAfterEditing 0, EvOnInMainLoop])
   \<and> (\<exists>s4 s1. enter_form (sample_app\<lparr>objs := (objs sample_app)(0 := active_form)\<rparr>)
                 = Inr (0, s4) \<and> 0 < next_ref s4
       \<and> loop_body (request_env sample_requests 0)
            (sample_app\<lparr>objs := (objs sample_app)(0 := active_form)\<rparr>) = Inr s1
       \<and> trace s1 = [EvResize 0, EvActivate 0, EvOnInMainLoop])
   \<and> (\<exists>s2 blocks. main 6 (request_env sample_requests) sample_app = Some (Inr s2)
       \<and> trace s2 = [EvOnStart]
            @ concat (map (\<lambda>(r, a, b, c). activation_sequence r a b c @ [EvOnInMainLoop]) blocks)
            @ [EvOnCleanExit])"
proof -
  let ?bh = "request_env sample_requests 0"
  let ?act = "sample_app\<lparr>objs := (objs sample_app)(0 := active_form)\<rparr>"
  from sample_first_iteration obtain s4 s1 where
    plain: "enter_form sample_app = Inr (0, s4)" "next_ref s4 = 2"
      "\<not> has_activate (objs s4 0)" "has_before_editing (objs s4 0)"
      "has_after_editing (objs s4 0)" "loop_body ?bh sample_app = Inr s1"
    by blast
  then have "enter_form sample_app = Inr (0, s4) \<and> 0 < next_ref s4
      \<and> loop_body ?bh sample_app = Inr s1"
    by simp
  from loop_body_activation_sequence
    [where s = sample_app and r = 0 and ?s4.0 = s4 and bh = ?bh and ?s1.0 = s1,
     THEN conjunct1, THEN mp, OF this] plain
  have "trace s1 = [EvBeforeEditing 0, EvResize 0, EvEdit 0, EvAfterEditing 0, EvOnInMainLoop]"
    by (simp add: sample_app_simps activation_sequence_def)
  with plain have first: "\<exists>s4 s1. enter_form sample_app = Inr (0, s4) \<and> 0 < next_ref s4
       \<and> loop_body ?bh sample_app = Inr s1
       \<and> trace s1 = [EvBeforeEditing 0, EvResize 0, EvEdit 0, EvAfterEditing 0, EvOnInMainLoop]"
    by auto
  from sample_first_iteration_activate obtain t4 t1 where
    act: "enter_form ?act = Inr (0, t4)" "next_ref t4 = 2" "has_activate (objs t4 0)"
      "loop_body ?bh ?act = Inr t1"
    by blast
  then have "enter_form ?act = Inr (0, t4) \<and> 0 < next_ref t4 \<and> loop_body ?bh ?act = Inr t1"
    by simp
  from loop_body_activation_sequence
    [where s = ?act and r = 0 and ?s4.0 = t4 and bh = ?bh and ?s1.0 = t1,
     THEN conjunct1, THEN mp, OF this] act
  have "trace t1 = [EvResize 0, EvActivate 0, EvOnInMainLoop]"
    by (simp add: sample_app_simps activation_sequence_def)
  with act have second: "\<exists>s4 s1. enter_form ?act = Inr (0, s4) \<and> 0 < next_ref s4
       \<and> loop_body ?bh ?act = Inr s1
       \<and> trace s1 = [EvResize 0, EvActivate 0, EvOnInMainLoop]"
    by auto
  from sample_main_run obtain s2 where
    run: "main 6 (request_env sample_requests) sample_app = Some (Inr s2)"
    by blast
  from loop_body_activation_sequence
    [where s = sample_app and fuel = 6 and env = "request_env sample_requests" and ?s2.0 = s2,
     THEN conjunct2, THEN conjunct1, THEN mp, OF run]
  obtain blocks where "trace s2 = trace sample_app @ [EvOnStart]
      @ concat (map (\<lambda>(r, a, b, c). activation_sequence r a b c @ [EvOnInMainLoop]) blocks)
      @ [EvOnCleanExit]"
    by blast
  with run have third: "\<exists>s2 blocks. main 6 (request_env sample_requests) sample_app = Some (Inr s2)
       \<and> trace s2 = [EvOnStart]
            @ concat (map (\<lambda>(r, a, b, c). activation_sequence r a b c @ [EvOnInMainLoop]) blocks)
            @ [EvOnCleanExit]"
    by (auto simp: sample_app_simps)
  from first second third show ?thesis by blast
qed

section \<open>The loop ends when a screen asks for no next form\<close>

lemma exec_requests:
  "exec_calls (map SetNextForm xs) t =
     Inr (if xs = [] then t else t\<lparr>NEXT_ACTIVE_FORM := last xs\<rparr>)"
  by (induction xs arbitrary: t) (simp_all add: set_next_form_def)

text \<open>
  Where a screen makes its requests does not matter: a screen whose methods ask for the
  identifiers \<open>rq m\<close> leaves the state that it leaves when it makes the same requests, in
  the same order, while it is edited or activated.
\<close>

lemma requests_in_edit:
  "run_form (\<lambda>m. map SetNextForm (rq m)) r s =
     run_form (request_env (\<lambda>j. requests_made rq (objs s r)) i) r s"
  by (cases "has_activate (objs s r)"; cases "has_before_editing (objs s r)";
      cases "has_after_editing (objs s r)")
    (simp_all add: run_form_def request_env_def exec_requests requests_made_def log_event_def
      del: map_append)

lemma run_form_requests:
  "\<exists>t. run_form (request_env reqs i) r s = Inr t
     \<and> NEXT_ACTIVE_FORM t = (if reqs i = [] then NEXT_ACTIVE_FORM s else last (reqs i))
     \<and> Forms t = Forms s"
  by (simp add: run_form_def request_env_def exec_requests)

lemma resolvable_enters:
  assumes "loop_condition s" and "resolvable s (NEXT_ACTIVE_FORM s)"
  shows "\<exists>r s4. enter_form s = Inr (r, s4)"
proof -
  from assms obtain name where name: "NEXT_ACTIVE_FORM s = Some name" "name \<noteq> []"
    by (auto simp: loop_condition_def)
  show ?thesis
  proof (cases "Forms s name")
    case None
    with assms(2) name show ?thesis by (simp add: resolvable_def)
  next
    case (Some e)
    show ?thesis
    proof (cases e)
      case (FormInstance r)
      with Some name enter_form_instance [of s name r] show ?thesis by blast
    next
      case (FormClass c a k)
      with assms(2) name Some obtain obj where "call_form_class c a k = Inr obj"
        by (cases "call_form_class c a k") (simp_all add: resolvable_def)
      with FormClass Some name enter_form_class [of s name c a k obj] show ?thesis by blast
    qed
  qed
qed

lemma resolvable_same_registry: "Forms t = Forms s \<Longrightarrow> resolvable t x = resolvable s x"
  by (simp add: resolvable_def cong: option.case_cong)

lemma activation_sequence_no_exit: "EvOnCleanExit \<notin> set (activation_sequence r a b c)"
  by (simp add: activation_sequence_def)

lemma loop_body_requests:
  assumes "loop_condition s" and "resolvable s (NEXT_ACTIVE_FORM s)"
  shows "\<exists>s1 evs. loop_body (request_env reqs i) s = Inr s1
     \<and> NEXT_ACTIVE_FORM s1 = (if reqs i = [] then NEXT_ACTIVE_FORM s else last (reqs i))
     \<and> Forms s1 = Forms s
     \<and> trace s1 = trace s @ evs \<and> EvOnCleanExit \<notin> set evs"
proof -
  from resolvable_enters [OF assms] obtain r s4 where e: "enter_form s = Inr (r, s4)"
    by blast
  from run_form_requests [of reqs i r s4] obtain t where
    t: "run_form (request_env reqs i) r s4 = Inr t"
      "NEXT_ACTIVE_FORM t = (if reqs i = [] then NEXT_ACTIVE_FORM s4 else last (reqs i))"
      "Forms t = Forms s4"
    by blast
  from e t(1) have body: "loop_body (request_env reqs i) s = Inr (on_in_main_loop t)"
    by (simp add: loop_body_def)
  from loop_body_events [OF body] obtain r' a b c where
    "trace (on_in_main_loop t) = trace s @ activation_sequence r' a b c @ [EvOnInMainLoop]"
    by blast
  then have "trace (on_in_main_loop t) = trace s @ (activation_sequence r' a b c @ [EvOnInMainLoop])
      \<and> EvOnCleanExit \<notin> set (activation_sequence r' a b c @ [EvOnInMainLoop])"
    by (simp add: activation_sequence_no_exit)
  with body t(2,3) enter_form_frame(2,3) [OF e] show ?thesis
    by (auto simp: on_in_main_loop_def)
qed

lemma main_loop_requests:
  assumes "\<forall>j<k. reqs (i + j) \<noteq> [] \<longrightarrow> resolvable s (last (reqs (i + j)))"
    and "resolvable s (NEXT_ACTIVE_FORM s)"
    and "reqs (i + k) \<noteq> []"
    and "last (reqs (i + k)) = None \<or> last (reqs (i + k)) = Some []"
    and "Suc k < fuel"
  shows "\<exists>s' evs. main_loop fuel (request_env reqs) i s = Some (Inr s')
     \<and> \<not> loop_condition s' \<and> trace s' = trace s @ evs \<and> EvOnCleanExit \<notin> set evs"
  using assms
proof (induction k arbitrary: fuel i s)
  case 0
  from "0.prems"(5) obtain f where fuel: "fuel = Suc (Suc f)"
    by (cases fuel; cases "fuel - 1") auto
  show ?case
  proof (cases "loop_condition s")
    case False
    then have "main_loop fuel (request_env reqs) i s = Some (Inr s)
        \<and> \<not> loop_condition s \<and> trace s = trace s @ [] \<and> EvOnCleanExit \<notin> set []"
      by (simp add: fuel)
    then show ?thesis by blast
  next
    case True
    from loop_body_requests [OF True "0.prems"(2), of reqs i] obtain s1 evs where
      s1: "loop_body (request_env reqs i) s = Inr s1"
        "NEXT_ACTIVE_FORM s1 = (if reqs i = [] then NEXT_ACTIVE_FORM s else last (reqs i))"
        "trace s1 = trace s @ evs" "EvOnCleanExit \<notin> set evs"
      by blast
    from s1(2) "0.prems"(3,4) have stop: "\<not> loop_condition s1"
      by (auto simp: loop_condition_def)
    with True s1(1) have "main_loop fuel (request_env reqs) i s = Some (Inr s1)"
      by (simp add: fuel)
    with stop s1(3,4) show ?thesis by blast
  qed
next
  case (Suc k)
  from Suc.prems(5) obtain f where fuel: "fuel = Suc f" "Suc k < f"
    by (cases fuel) auto
  show ?case
  proof (cases "loop_condition s")
    case False
    then have "main_loop fuel (request_env reqs) i s = Some (Inr s)
        \<and> \<not> loop_condition s \<and> trace s = trace s @ [] \<and> EvOnCleanExit \<notin> set []"
      by (simp add: fuel)
    then show ?thesis by blast
  next
    case True
    from loop_body_requests [OF True Suc.prems(2), of reqs i] obtain s1 evs where
      s1: "loop_body (request_env reqs i) s = Inr s1"
        "NEXT_ACTIVE_FORM s1 = (if reqs i = [] then NEXT_ACTIVE_FORM s else last (reqs i))"
        "Forms s1 = Forms s"
        "trace s1 = trace s @ evs" "EvOnCleanExit \<notin> set evs"
      by blast
    have same: "resolvable s1 x = resolvable s x" for x
      using resolvable_same_registry [OF s1(3)] .
    have next_ok: "resolvable s1 (NEXT_ACTIVE_FORM s1)"
    proof (cases "reqs i = []")
      case True
      with s1(2) Suc.prems(2) show ?thesis by (simp add: same)
    next
      case False
      with Suc.prems(1) [rule_format, of 0] s1(2) show ?thesis by (simp add: same)
    qed
    have later: "\<forall>j<k. reqs (Suc i + j) \<noteq> [] \<longrightarrow> resolvable s1 (last (reqs (Suc i + j)))"
    proof (intro allI impI)
      fix j
      assume "j < k" and "reqs (Suc i + j) \<noteq> []"
      with Suc.prems(1) [rule_format, of "Suc j"] show "resolvable s1 (last (reqs (Suc i + j)))"
        by (simp add: same)
    qed
    from Suc.prems(3,4) have last_one: "reqs (Suc i + k) \<noteq> []"
      "last (reqs (Suc i + k)) = None \<or> last (reqs (Suc i + k)) = Some []"
      by simp_all
    from Suc.IH [OF later next_ok last_one fuel(2)] obtain s' evs' where
      rest: "main_loop f (request_env reqs) (Suc i) s1 = Some (Inr s')"
        "\<not> loop_condition s'" "trace s' = trace s1 @ evs'" "EvOnCleanExit \<notin> set evs'"
      by blast
    from True s1(1) rest(1) have "main_loop fuel (request_env reqs) i s = Some (Inr s')"
      by (simp add: fuel)
    moreover from s1(4,5) rest(3,4) have "trace s' = trace s @ (evs @ evs')
        \<and> EvOnCleanExit \<notin> set (evs @ evs')"
      by simp
    ultimately show ?thesis using rest(2) by blast
  qed
qed

text \<open>
  C4: the screens do nothing but ask for next forms; \<open>reqs i\<close> are the requests of the
  screen of iteration \<open>i\<close>. Every request that is pending when the loop comes back to its
  test, and the identifier the loop starts with, can be activated (it is registered, and
  if it is a class its call returns), and the requests of iteration \<open>k\<close> end with the stop
  value, \<open>None\<close> or the empty string. Then \<open>main\<close> returns, for every fuel above \<open>k + 1\<close>:
  the loop has ended, \<open>NEXT_ACTIVE_FORM\<close> is a stop value, and \<open>on_clean_exit\<close> has run
  once, as the last thing after \<open>on_start\<close> and the screens.
\<close>

theorem main_terminates_on_stop_request:
  assumes "\<forall>j<k. reqs j \<noteq> [] \<longrightarrow> resolvable s (last (reqs j))"
    and "resolvable s (NEXT_ACTIVE_FORM s)"
    and "reqs k \<noteq> []"
    and "last (reqs k) = None \<or> last (reqs k) = Some ''''"
    and "Suc k < fuel"
  shows "\<exists>s'. main fuel (request_env reqs) s = Some (Inr s')
     \<and> (NEXT_ACTIVE_FORM s' = None \<or> NEXT_ACTIVE_FORM s' = Some '''')
     \<and> (\<exists>evs. trace s' = trace s @ [EvOnStart] @ evs @ [EvOnCleanExit]
            \<and> EvOnCleanExit \<notin> set evs)"
proof -
  have registry: "Forms (on_start s) = Forms s"
    "NEXT_ACTIVE_FORM (on_start s) = NEXT_ACTIVE_FORM s"
    by (simp_all add: on_start_def)
  have same: "resolvable (on_start s) x = resolvable s x" for x
    using resolvable_same_registry [OF registry(1)] .
  from assms(1) have "\<forall>j<k. reqs (0 + j) \<noteq> [] \<longrightarrow> resolvable (on_start s) (last (reqs (0 + j)))"
    by (simp add: same)
  moreover from assms(2) have "resolvable (on_start s) (NEXT_ACTIVE_FORM (on_start s))"
    by (simp add: same registry(2))
  moreover from assms(3,4) have "reqs (0 + k) \<noteq> []"
    "last (reqs (0 + k)) = None \<or> last (reqs (0 + k)) = Some []"
    by simp_all
  ultimately obtain t evs where
    t: "main_loop fuel (request_env reqs) 0 (on_start s) = Some (Inr t)"
      "\<not> loop_condition t" "trace t = trace (on_start s) @ evs" "EvOnCleanExit \<notin> set evs"
    using main_loop_requests [of k reqs 0 "on_start s" fuel] assms(5) by blast
  from t(1) have "main fuel (request_env reqs) s = Some (Inr (on_clean_exit t))"
    by (simp add: main_def)
  moreover from t(2) have "NEXT_ACTIVE_FORM (on_clean_exit t) = None
      \<or> NEXT_ACTIVE_FORM (on_clean_exit t) = Some ''''"
    by (auto simp: loop_condition_def on_clean_exit_def)
  moreover from t(3,4) have "trace (on_clean_exit t) = trace s @ [EvOnStart] @ evs @ [EvOnCleanExit]
      \<and> EvOnCleanExit \<notin> set evs"
    by (simp add: on_clean_exit_def on_start_def)
  ultimately show ?thesis by blast
qed

text \<open>
  In the sample application the screens ask for \<open>MAIN\<close>, \<open>SECOND\<close>, \<open>THIRD\<close>, and then
  for \<open>MAIN\<close> and \<open>None\<close>: the fourth iteration is the last.
\<close>

theorem main_terminates_on_stop_request_witness:
  "\<exists>s'. main 5 (request_env sample_requests) sample_app = Some (Inr s')
     \<and> (NEXT_ACTIVE_FORM s' = None \<or> NEXT_ACTIVE_FORM s' = Some '''')
     \<and> (\<exists>evs. trace s' = [EvOnStart] @ evs @ [EvOnCleanExit] \<and> EvOnCleanExit \<notin> set evs)"
proof -
  have call: "call_form_class MainForm [] [(''name'', ''Screen 3'')] = Inr plain_form"
    by (simp add: call_form_class_def MainForm_def)
  have pending: "\<forall>j<3. sample_requests j \<noteq> [] \<longrightarrow>
      resolvable sample_app (last (sample_requests j))"
    by (simp add: sample_requests_def resolvable_def sample_app_simps call)
  have start: "resolvable sample_app (NEXT_ACTIVE_FORM sample_app)"
    by (simp add: resolvable_def sample_app_simps)
  have stop: "sample_requests 3 \<noteq> []"
    "last (sample_requests 3) = None \<or> last (sample_requests 3) = Some ''''"
    by (simp_all add: sample_requests_def)
  have fuel: "Suc 3 < (5::nat)" by simp
  from main_terminates_on_stop_request [OF pending start stop fuel]
  show ?thesis by (simp add: sample_app_simps)
qed

end
